theory Spec2Isabelle
  imports Complex_Main
begin

section \<open>Common values\<close>

text \<open>
  The exceptions the modelled code can raise. A function of the source that can raise
  returns \<open>error + 'a\<close>, with \<open>Inl\<close> for the exception.
\<close>

datatype error =
    ValueError
  | FileNotFoundError
  | RuntimeError
  | NotImplementedError
  | ImportError
  | IndexError
  | ZeroDivisionError
  | TypeError

text \<open>
  Python's \<open>int(x)\<close> on a float truncates towards zero. A float is modelled by the real
  number it stands for.
\<close>

definition py_int :: "real \<Rightarrow> int" where
  "py_int x = (if 0 \<le> x then \<lfloor>x\<rfloor> else \<lceil>x\<rceil>)"

text \<open>
  Subscripting a list, \<open>xs[i]\<close>: an index from \<open>0\<close> up to the length reads from the
  front, one from \<open>-1\<close> down to minus the length reads from the back, any other raises.
\<close>

definition py_index :: "'a list \<Rightarrow> int \<Rightarrow> error + 'a" where
  "py_index xs i =
     (if 0 \<le> i \<and> i < int (length xs) then Inr (xs ! nat i)
      else if i < 0 \<and> - int (length xs) \<le> i then Inr (xs ! nat (int (length xs) + i))
      else Inl IndexError)"

section \<open>Double arithmetic\<close>

text \<open>
  Python's floats are IEEE binary64 numbers, and an arithmetic operation returns the exact
  result rounded to the nearest double, a tie going to the even significand.
  \<open>binade x\<close> is the exponent \<open>e\<close> with \<open>2^e \<le> |x| < 2^(e+1)\<close>, found by search and kept
  within \<open>-1022..1023\<close> (the lowest one for zero); the doubles of that binade are the multiples of \<open>2^(e-52)\<close>, and
  \<open>round_double\<close> rounds to the nearest of them. Below \<open>2^-1022\<close> this is the subnormal
  spacing; overflow to infinity (from \<open>2^1024\<close> on) is not modelled.
\<close>

definition round_half_even :: "real \<Rightarrow> int" where
  "round_half_even y =
     (let n = \<lfloor>y\<rfloor>; r = y - of_int n
      in if r < 1 / 2 then n else if 1 / 2 < r then n + 1 else if even n then n else n + 1)"

fun binade_up :: "nat \<Rightarrow> real \<Rightarrow> int \<Rightarrow> int" where
  "binade_up 0 x e = e"
| "binade_up (Suc n) x e = (if x < 2 powi (e + 1) then e else binade_up n x (e + 1))"

fun binade_down :: "nat \<Rightarrow> real \<Rightarrow> int \<Rightarrow> int" where
  "binade_down 0 x e = e"
| "binade_down (Suc n) x e = (if 2 powi e \<le> x then e else binade_down n x (e - 1))"

definition binade :: "real \<Rightarrow> int" where
  "binade x =
     (if x = 0 then - 1022
      else if 1 \<le> \<bar>x\<bar> then binade_up 1023 \<bar>x\<bar> 0
      else binade_down 1021 \<bar>x\<bar> (- 1))"

definition round_double :: "real \<Rightarrow> real" where
  "round_double x =
     of_int (round_half_even (x / 2 powi (binade x - 52))) * 2 powi (binade x - 52)"

text \<open>The float operations \<open>a - b\<close> and \<open>a / b\<close>.\<close>

definition float_sub :: "real \<Rightarrow> real \<Rightarrow> real" where
  "float_sub a b = round_double (a - b)"

definition float_div :: "real \<Rightarrow> real \<Rightarrow> error + real" where
  "float_div a b = (if b = 0 then Inl ZeroDivisionError else Inr (round_double (a / b)))"

section \<open>Detections (src/detector/yolo\_detector.py)\<close>

record Detection =
  class_id :: int
  class_name :: string
  confidence :: real
  bbox :: "int \<times> int \<times> int \<times> int"
  center :: "int \<times> int"

text \<open>
  One box of the model's result, as the parse loop of \<open>_detect_ultralytics\<close> reads it:
  \<open>box.cls\<close>, \<open>box.conf\<close> and the four numbers of \<open>box.xyxy[0].tolist()\<close>.
\<close>

record box =
  cls :: real
  conf :: real
  xyxy :: "real \<times> real \<times> real \<times> real"

text \<open>
  The body of the loop \<open>for box in results.boxes\<close>: \<open>None\<close> is the \<open>continue\<close> of the
  class filter (\<open>filter_classes\<close> is falsy when it is \<open>None\<close> or empty).
\<close>

definition parse_box :: "string list \<Rightarrow> string list option \<Rightarrow> box \<Rightarrow> error + Detection option" where
  "parse_box class_names filter_classes b =
     (let cid = py_int (cls b) in
      case py_index class_names cid of
        Inl e \<Rightarrow> Inl e
      | Inr cname \<Rightarrow>
          let confidence' = conf b in
          if (case filter_classes of None \<Rightarrow> False | Some fc \<Rightarrow> fc \<noteq> [] \<and> cname \<notin> set fc)
          then Inr None
          else
            (case xyxy b of (fx1, fy1, fx2, fy2) \<Rightarrow>
               let x1 = py_int fx1; y1 = py_int fy1; x2 = py_int fx2; y2 = py_int fy2;
                   cx = (x1 + x2) div 2;
                   cy = (y1 + y2) div 2
               in Inr (Some \<lparr>class_id = cid, class_name = cname, confidence = confidence',
                               bbox = (x1, y1, x2, y2), center = (cx, cy)\<rparr>)))"

fun parse_boxes :: "string list \<Rightarrow> string list option \<Rightarrow> box list \<Rightarrow> error + Detection list" where
  "parse_boxes class_names filter_classes [] = Inr []"
| "parse_boxes class_names filter_classes (b # bs) =
     (case parse_box class_names filter_classes b of
        Inl e \<Rightarrow> Inl e
      | Inr r \<Rightarrow>
          (case parse_boxes class_names filter_classes bs of
             Inl e \<Rightarrow> Inl e
           | Inr ds \<Rightarrow> Inr ((case r of None \<Rightarrow> [] | Some d \<Rightarrow> [d]) @ ds)))"

section \<open>The policy (src/strategy/base\_strategy.py)\<close>

datatype GameState = IDLE | MENU | BATTLE | LOADING | REWARD | DIALOGUE | UNKNOWN

text \<open>
  A decision is the dictionary \<open>{"action": ..., "params": {...}}\<close>; the inner dictionary
  is kept as an association list in the order the source writes its keys.
\<close>

record Decision =
  action :: string
  params :: "(string \<times> int) list"

text \<open>
  The fields of \<open>BaseStrategy\<close> and \<open>SimpleStrategy\<close>. \<open>state_indicators\<close> is a
  dictionary literal; Python dictionaries iterate in insertion order, so it is an
  association list in the order of the literal.
\<close>

record Strategy =
  name :: string
  current_state :: GameState
  frame_count :: int
  last_action_time :: real
  action_cooldown :: real
  state_indicators :: "(GameState \<times> string list) list"

definition SimpleStrategy_init :: Strategy where
  "SimpleStrategy_init =
     \<lparr>name = ''SimpleStrategy'',
      current_state = UNKNOWN,
      frame_count = 0,
      last_action_time = 0,
      action_cooldown = 1 / 2,
      state_indicators =
        [(MENU, [''start_button'', ''menu_bg'']),
         (BATTLE, [''enemy'', ''hp_bar'', ''skill_button'']),
         (REWARD, [''reward_icon'', ''claim_button'']),
         (LOADING, [''loading_icon''])]\<rparr>"

definition get_detections_by_class :: "Detection list \<Rightarrow> string \<Rightarrow> Detection list" where
  "get_detections_by_class detections cn = filter (\<lambda>det. class_name det = cn) detections"

definition has_detection :: "Detection list \<Rightarrow> string \<Rightarrow> bool" where
  "has_detection detections cn = list_ex (\<lambda>det. class_name det = cn) detections"

text \<open>
  \<open>analyze_state\<close>: the outer loop over the items of \<open>state_indicators\<close>, the inner loop
  over one state's indicators, returning at the first indicator that is detected.
\<close>

fun indicators_loop :: "Detection list \<Rightarrow> string list \<Rightarrow> bool" where
  "indicators_loop detections [] = False"
| "indicators_loop detections (indicator # rest) =
     (if has_detection detections indicator then True else indicators_loop detections rest)"

fun states_loop :: "Detection list \<Rightarrow> (GameState \<times> string list) list \<Rightarrow> GameState" where
  "states_loop detections [] = UNKNOWN"
| "states_loop detections ((state, indicators) # rest) =
     (if indicators_loop detections indicators then state else states_loop detections rest)"

definition analyze_state :: "Strategy \<Rightarrow> 'f \<Rightarrow> Detection list \<Rightarrow> GameState" where
  "analyze_state self frame detections = states_loop detections (state_indicators self)"

definition wait :: Decision where
  "wait = \<lparr>action = ''wait'', params = []\<rparr>"

definition tap_at :: "int \<times> int \<Rightarrow> Decision" where
  "tap_at c = (case c of (cx, cy) \<Rightarrow> \<lparr>action = ''tap'', params = [(''x'', cx), (''y'', cy)]\<rparr>)"

definition handle_menu :: "Detection list \<Rightarrow> Decision" where
  "handle_menu detections =
     (case get_detections_by_class detections ''start_button'' of
        button # _ \<Rightarrow> tap_at (center button)
      | [] \<Rightarrow> wait)"

definition handle_battle :: "Detection list \<Rightarrow> Decision" where
  "handle_battle detections =
     (case get_detections_by_class detections ''enemy'' of
        enemy # _ \<Rightarrow> tap_at (center enemy)
      | [] \<Rightarrow>
          (case get_detections_by_class detections ''skill_button'' of
             skill # _ \<Rightarrow> tap_at (center skill)
           | [] \<Rightarrow> wait))"

definition handle_reward :: "Detection list \<Rightarrow> Decision" where
  "handle_reward detections =
     (case get_detections_by_class detections ''claim_button'' of
        button # _ \<Rightarrow> tap_at (center button)
      | [] \<Rightarrow> wait)"

definition make_decision :: "Strategy \<Rightarrow> 'f \<Rightarrow> Detection list \<Rightarrow> GameState \<Rightarrow> Decision" where
  "make_decision self frame detections state =
     (if state = MENU then handle_menu detections
      else if state = BATTLE then handle_battle detections
      else if state = REWARD then handle_reward detections
      else if state = LOADING then wait
      else wait)"

text \<open>
  \<open>BaseStrategy.update\<close>, over the two abstract methods. The reading of the clock
  (\<open>time.time()\<close>) is the argument \<open>now\<close>, and the cooldown test compares the float
  difference \<open>current_time - self.last_action_time\<close>. \<open>decide\<close> returns \<open>None\<close> for a falsy
  result (\<open>None\<close> or an empty dictionary), which \<open>if decision:\<close> does not timestamp.
\<close>

definition BaseStrategy_update ::
  "(Strategy \<Rightarrow> 'f \<Rightarrow> Detection list \<Rightarrow> GameState) \<Rightarrow>
   (Strategy \<Rightarrow> 'f \<Rightarrow> Detection list \<Rightarrow> GameState \<Rightarrow> Decision option) \<Rightarrow>
   Strategy \<Rightarrow> real \<Rightarrow> 'f \<Rightarrow> Detection list \<Rightarrow> Strategy \<times> Decision option" where
  "BaseStrategy_update analyze decide self now frame detections =
     (let self1 = self\<lparr>frame_count := frame_count self + 1\<rparr>;
          self2 = self1\<lparr>current_state := analyze self1 frame detections\<rparr>;
          current_time = now
      in if float_sub current_time (last_action_time self2) < action_cooldown self2
         then (self2, None)
         else
           (let decision = decide self2 frame detections (current_state self2)
            in case decision of
                 None \<Rightarrow> (self2, None)
               | Some d \<Rightarrow> (self2\<lparr>last_action_time := current_time\<rparr>, Some d)))"

text \<open>
  \<open>update\<close> on a \<open>SimpleStrategy\<close>: every branch of its \<open>make_decision\<close> returns a
  dictionary with the keys \<open>action\<close> and \<open>params\<close>, which is truthy.
\<close>

definition update :: "Strategy \<Rightarrow> real \<Rightarrow> 'f \<Rightarrow> Detection list \<Rightarrow> Strategy \<times> Decision option" where
  "update = BaseStrategy_update analyze_state
              (\<lambda>self frame detections state. Some (make_decision self frame detections state))"

section \<open>The detector object (src/detector/yolo\_detector.py)\<close>

datatype model_type = ultralytics | onnx

text \<open>
  The loaded model. An Ultralytics model is called on an image with the two thresholds and
  yields the boxes of its first result; an ONNX session is only ever stored.
\<close>

datatype 'img yolo_model = YOLO "'img \<Rightarrow> real \<Rightarrow> real \<Rightarrow> box list" | InferenceSession

record 'img YOLODetector =
  model_path :: string
  conf_threshold :: real
  iou_threshold :: real
  use_gpu :: bool
  model :: "'img yolo_model option"
  class_names :: "string list"
  model_type :: model_type

text \<open>
  What the constructor asks of its host: \<open>pathlib\<close>'s \<open>Path.suffix\<close> and \<open>Path.exists\<close>,
  and the outcome of the two library loaders (an exception, or the model with its names).
\<close>

record 'img host =
  suffix_of :: "string \<Rightarrow> string"
  path_exists :: "string \<Rightarrow> bool"
  load_YOLO :: "string \<Rightarrow> bool \<Rightarrow> error + ('img \<Rightarrow> real \<Rightarrow> real \<Rightarrow> box list) \<times> string list"
  load_ort :: "string \<Rightarrow> bool \<Rightarrow> error + unit"

text \<open>\<open>str.lower()\<close> on the ASCII letters.\<close>

definition lower_char :: "char \<Rightarrow> char" where
  "lower_char c =
     (case map_of (zip ''ABCDEFGHIJKLMNOPQRSTUVWXYZ'' ''abcdefghijklmnopqrstuvwxyz'') c of
        None \<Rightarrow> c
      | Some l \<Rightarrow> l)"

definition lower :: "string \<Rightarrow> string" where
  "lower s = map lower_char s"

definition detect_model_type :: "'img host \<Rightarrow> string \<Rightarrow> error + model_type" where
  "detect_model_type h path =
     (let suffix = lower (suffix_of h path) in
      if suffix = ''.pt'' then Inr ultralytics
      else if suffix = ''.onnx'' then Inr onnx
      else Inl ValueError)"

definition load_ultralytics_model :: "'img host \<Rightarrow> 'img YOLODetector \<Rightarrow> error + 'img YOLODetector" where
  "load_ultralytics_model h self =
     (case load_YOLO h (model_path self) (use_gpu self) of
        Inl e \<Rightarrow> Inl e
      | Inr (m, names) \<Rightarrow> Inr (self\<lparr>model := Some (YOLO m), class_names := names\<rparr>))"

definition load_onnx_model :: "'img host \<Rightarrow> 'img YOLODetector \<Rightarrow> error + 'img YOLODetector" where
  "load_onnx_model h self =
     (case load_ort h (model_path self) (use_gpu self) of
        Inl e \<Rightarrow> Inl e
      | Inr _ \<Rightarrow> Inr (self\<lparr>model := Some InferenceSession, class_names := []\<rparr>))"

definition load_model :: "'img host \<Rightarrow> 'img YOLODetector \<Rightarrow> error + 'img YOLODetector" where
  "load_model h self =
     (if \<not> path_exists h (model_path self) then Inl FileNotFoundError
      else (case model_type self of
              ultralytics \<Rightarrow> load_ultralytics_model h self
            | onnx \<Rightarrow> load_onnx_model h self))"

definition YOLODetector_init ::
  "'img host \<Rightarrow> string \<Rightarrow> real \<Rightarrow> real \<Rightarrow> bool \<Rightarrow> error + 'img YOLODetector" where
  "YOLODetector_init h path conf_thr iou_thr gpu =
     (case detect_model_type h path of
        Inl e \<Rightarrow> Inl e
      | Inr mt \<Rightarrow>
          load_model h
            \<lparr>model_path = path, conf_threshold = conf_thr, iou_threshold = iou_thr,
             use_gpu = gpu, model = None, class_names = [], model_type = mt\<rparr>)"

definition detect_ultralytics ::
  "'img YOLODetector \<Rightarrow> 'img yolo_model \<Rightarrow> 'img \<Rightarrow> string list option \<Rightarrow> error + Detection list" where
  "detect_ultralytics self m img filter_classes =
     (case m of
        YOLO run \<Rightarrow>
          parse_boxes (class_names self) filter_classes
            (run img (conf_threshold self) (iou_threshold self))
      | InferenceSession \<Rightarrow> Inl TypeError)"

definition detect_onnx :: "'img YOLODetector \<Rightarrow> 'img \<Rightarrow> string list option \<Rightarrow> error + Detection list" where
  "detect_onnx self img filter_classes = Inl NotImplementedError"

definition detect :: "'img YOLODetector \<Rightarrow> 'img \<Rightarrow> string list option \<Rightarrow> error + Detection list" where
  "detect self img filter_classes =
     (case model self of
        None \<Rightarrow> Inl RuntimeError
      | Some m \<Rightarrow>
          (case model_type self of
             ultralytics \<Rightarrow> detect_ultralytics self m img filter_classes
           | onnx \<Rightarrow> detect_onnx self img filter_classes))"

section \<open>The actuator (src/controller/game\_controller.py)\<close>

text \<open>
  What the program does to the outside, in order: the calls it makes on the device driver,
  its sleeps and its log lines. A duration is carried as the source writes it (the literal
  \<open>0.05\<close> as 1/20).
\<close>

datatype warning = FrameFetchFailed | UnknownAction string

datatype event =
    Click int int
  | DeviceSwipe int int int int real
  | Sleep real
  | Print
  | LogWarning warning
  | LogDebug
  | LogInfo
  | DetectCall
  | Imshow
  | Imwrite int
  | Disconnect
  | DestroyAllWindows

text \<open>
  The random generator is the sequence of its raw draws. \<open>randint a b\<close> maps the next raw
  draw onto \<open>a..b\<close>: every raw sequence is one outcome of the draws, and every value of
  \<open>a..b\<close> comes from some raw draw. An empty range raises, as \<open>random.randint\<close> does.
\<close>

record world =
  rng :: "nat \<Rightarrow> nat"
  trace :: "event list"

definition emit :: "event list \<Rightarrow> world \<Rightarrow> world" where
  "emit es w = w\<lparr>trace := trace w @ es\<rparr>"

definition randint :: "int \<Rightarrow> int \<Rightarrow> world \<Rightarrow> error + int \<times> world" where
  "randint a b w =
     (if b < a then Inl ValueError
      else Inr (a + int (rng w 0 mod nat (b - a + 1)), w\<lparr>rng := (\<lambda>n. rng w (Suc n))\<rparr>))"

datatype platform = android | ios

text \<open>\<open>time.sleep\<close> raises on a negative length.\<close>

definition time_sleep :: "real \<Rightarrow> world \<Rightarrow> error + world" where
  "time_sleep secs w = (if secs < 0 then Inl ValueError else Inr (emit [Sleep secs] w))"

text \<open>
  \<open>AndroidController.tap\<close> and \<open>IOSController.tap\<close>. The \<open>try\<close> turns an exception into
  a printed line, also the one that \<open>time.sleep\<close> raises after the click. The driver's
  call is recorded when it is made; a failure inside the driver is outside this model.
\<close>

definition AndroidController_tap :: "int \<Rightarrow> int \<Rightarrow> real \<Rightarrow> world \<Rightarrow> world" where
  "AndroidController_tap x y duration w =
     (case randint (- 2) 2 w of
        Inl e \<Rightarrow> emit [Print] w
      | Inr (x_offset, w1) \<Rightarrow>
          (case randint (- 2) 2 w1 of
             Inl e \<Rightarrow> emit [Print] w1
           | Inr (y_offset, w2) \<Rightarrow>
               let w3 = emit [Click (x + x_offset) (y + y_offset)] w2 in
               (case time_sleep duration w3 of
                  Inl e \<Rightarrow> emit [Print] w3
                | Inr w4 \<Rightarrow> w4)))"

definition IOSController_tap :: "int \<Rightarrow> int \<Rightarrow> real \<Rightarrow> world \<Rightarrow> world" where
  "IOSController_tap x y duration w =
     (let w1 = emit [Click x y] w in
      case time_sleep duration w1 of
        Inl e \<Rightarrow> emit [Print] w1
      | Inr w2 \<Rightarrow> w2)"

definition tap :: "platform \<Rightarrow> int \<Rightarrow> int \<Rightarrow> real \<Rightarrow> world \<Rightarrow> world" where
  "tap p x y duration w =
     (case p of
        android \<Rightarrow> AndroidController_tap x y duration w
      | ios \<Rightarrow> IOSController_tap x y duration w)"

definition tap_random :: "platform \<Rightarrow> int \<Rightarrow> int \<Rightarrow> int \<Rightarrow> real \<Rightarrow> world \<Rightarrow> error + world" where
  "tap_random p x y radius duration w =
     (case randint (- radius) radius w of
        Inl e \<Rightarrow> Inl e
      | Inr (offset_x, w1) \<Rightarrow>
          (case randint (- radius) radius w1 of
             Inl e \<Rightarrow> Inl e
           | Inr (offset_y, w2) \<Rightarrow> Inr (tap p (x + offset_x) (y + offset_y) duration w2)))"

definition swipe :: "platform \<Rightarrow> int \<Rightarrow> int \<Rightarrow> int \<Rightarrow> int \<Rightarrow> real \<Rightarrow> world \<Rightarrow> world" where
  "swipe p start_x start_y end_x end_y duration w =
     emit [DeviceSwipe start_x start_y end_x end_y duration] w"

text \<open>
  \<open>AndroidController.swipe_smooth\<close>. Its arithmetic is on floats: every operation rounds
  its exact result. \<open>fl\<close> is that rounding for \<open>+\<close>, \<open>-\<close>, \<open>*\<close> and \<open>/\<close>, and \<open>pw x\<close> is
  what the library returns for \<open>x ** 2\<close>; they are parameters, and \<open>round_double\<close> is the
  rounding of double arithmetic. One coordinate of the curve, as the source brackets it:
  \<open>(1 - t) ** 2 * p0 + 2 * (1 - t) * t * c + t ** 2 * p1\<close>.
\<close>

definition bezier :: "(real \<Rightarrow> real) \<Rightarrow> (real \<Rightarrow> real) \<Rightarrow> real \<Rightarrow> int \<Rightarrow> real \<Rightarrow> int \<Rightarrow> real" where
  "bezier fl pw t p0 c p1 =
     fl (fl (fl (pw (fl (1 - t)) * real_of_int p0)
             + fl (fl (fl (2 * fl (1 - t)) * t) * c))
         + fl (pw t * real_of_int p1))"

definition control_point :: "(real \<Rightarrow> real) \<Rightarrow> int \<Rightarrow> int \<Rightarrow> int \<Rightarrow> real" where
  "control_point fl p0 p1 r = fl (fl (real_of_int (p0 + p1) / 2) + real_of_int r)"

definition path_point ::
  "(real \<Rightarrow> real) \<Rightarrow> (real \<Rightarrow> real) \<Rightarrow> int \<Rightarrow> int \<Rightarrow> int \<Rightarrow> int \<Rightarrow> real \<Rightarrow> real \<Rightarrow> int \<Rightarrow> nat
   \<Rightarrow> int \<times> int" where
  "path_point fl pw start_x start_y end_x end_y control_x control_y steps i =
     (let t = fl (real i / real_of_int steps);
          x = bezier fl pw t start_x control_x end_x;
          y = bezier fl pw t start_y control_y end_y
      in (py_int x, py_int y))"

text \<open>
  The two draws and the loop \<open>for i in range(steps + 1)\<close>. With \<open>steps = 0\<close> the first
  \<open>i / steps\<close> raises; with \<open>steps < 0\<close> the range is empty.
\<close>

definition swipe_smooth_path ::
  "(real \<Rightarrow> real) \<Rightarrow> (real \<Rightarrow> real) \<Rightarrow> int \<Rightarrow> int \<Rightarrow> int \<Rightarrow> int \<Rightarrow> int \<Rightarrow> world
   \<Rightarrow> error \<times> world + (int \<times> int) list \<times> world" where
  "swipe_smooth_path fl pw start_x start_y end_x end_y steps w =
     (case randint (- 50) 50 w of
        Inl e \<Rightarrow> Inl (e, w)
      | Inr (rx, w1) \<Rightarrow>
          (case randint (- 50) 50 w1 of
             Inl e \<Rightarrow> Inl (e, w1)
           | Inr (ry, w2) \<Rightarrow>
               let control_x = control_point fl start_x end_x rx;
                   control_y = control_point fl start_y end_y ry
               in if steps = 0 then Inl (ZeroDivisionError, w2)
                  else Inr (map (path_point fl pw start_x start_y end_x end_y
                                   control_x control_y steps)
                              [0..<nat (steps + 1)], w2)))"

definition AndroidController_swipe_smooth ::
  "(real \<Rightarrow> real) \<Rightarrow> (real \<Rightarrow> real) \<Rightarrow> int \<Rightarrow> int \<Rightarrow> int \<Rightarrow> int \<Rightarrow> real \<Rightarrow> int \<Rightarrow> world \<Rightarrow> world" where
  "AndroidController_swipe_smooth fl pw start_x start_y end_x end_y duration steps w =
     (case swipe_smooth_path fl pw start_x start_y end_x end_y steps w of
        Inl (e, w') \<Rightarrow> emit [Print] w'
      | Inr (points, w') \<Rightarrow>
          let step_duration = fl (duration / real_of_int steps)
          in emit (map (\<lambda>((x1, y1), (x2, y2)). DeviceSwipe x1 y1 x2 y2 step_duration)
                     (zip points (tl points))) w')"

definition swipe_smooth ::
  "(real \<Rightarrow> real) \<Rightarrow> (real \<Rightarrow> real) \<Rightarrow> platform \<Rightarrow> int \<Rightarrow> int \<Rightarrow> int \<Rightarrow> int \<Rightarrow> real \<Rightarrow> world \<Rightarrow> world" where
  "swipe_smooth fl pw p start_x start_y end_x end_y duration w =
     (case p of
        android \<Rightarrow> AndroidController_swipe_smooth fl pw start_x start_y end_x end_y duration 20 w
      | ios \<Rightarrow> swipe p start_x start_y end_x end_y duration w)"

section \<open>The orchestrator (main.py)\<close>

text \<open>
  \<open>GameBot._execute_action\<close>. \<open>params.get\<close> is the lookup in the association list;
  \<open>tap_random\<close> is called with its default radius 5 and duration 0.05, \<open>swipe\<close> with its
  default duration 0.5.
\<close>

definition execute_action :: "platform \<Rightarrow> Decision \<Rightarrow> world \<Rightarrow> error + world" where
  "execute_action p decision w =
     (let act = action decision; ps = params decision in
      if act = ''tap'' then
        (case (map_of ps ''x'', map_of ps ''y'') of
           (Some x, Some y) \<Rightarrow>
             (case tap_random p x y 5 (1 / 20) w of
                Inl e \<Rightarrow> Inl e
              | Inr w' \<Rightarrow> Inr (emit [LogDebug] w'))
         | _ \<Rightarrow> Inr w)
      else if act = ''swipe'' then
        (case (map_of ps ''start_x'', map_of ps ''start_y'', map_of ps ''end_x'', map_of ps ''end_y'') of
           (Some start_x, Some start_y, Some end_x, Some end_y) \<Rightarrow>
             Inr (emit [LogDebug] (swipe p start_x start_y end_x end_y (1 / 2) w))
         | _ \<Rightarrow> Inr w)
      else if act = ''wait'' then Inr w
      else Inr (emit [LogWarning (UnknownAction act)] w))"

text \<open>
  The fields of \<open>GameBot\<close> that the loop reads and writes (\<open>bot_frame_count\<close> is
  \<open>GameBot.frame_count\<close>, the strategy has a counter of its own), with the locals of
  \<open>run\<close> that outlive an iteration: \<open>frame_time\<close>, the three runtime settings and
  \<open>last_time\<close>.
\<close>

record 'img GameBot =
  is_running :: bool
  bot_frame_count :: int
  fps :: real
  detector :: "'img YOLODetector"
  strategy :: Strategy
  controller :: platform
  frame_time :: real
  enable_viz :: bool
  save_screenshots :: bool
  screenshot_interval :: int
  last_time :: real

text \<open>
  What one iteration gets from outside: the frame (\<open>None\<close> for a failed fetch) and the
  readings of the clock, in the order the iteration takes them.
\<close>

record 'img tick =
  loop_start :: real
  get_frame :: "'img option"
  update_time :: real
  fps_time :: real
  end_time :: real

text \<open>The iteration from the visualisation to the frame-rate limit.\<close>

definition finish_iteration ::
  "'img tick \<Rightarrow> 'img GameBot \<Rightarrow> world \<Rightarrow> error \<times> 'img GameBot \<times> world + 'img GameBot \<times> world" where
  "finish_iteration tk self w =
     (let w3 = (if enable_viz self then emit [Imshow] w else w) in
      if save_screenshots self \<and> screenshot_interval self = 0 then Inl (ZeroDivisionError, self, w3)
      else
        let w4 = (if save_screenshots self \<and> bot_frame_count self mod screenshot_interval self = 0
                  then emit [Imwrite (bot_frame_count self)] w3 else w3);
            self2 = self\<lparr>bot_frame_count := bot_frame_count self + 1\<rparr>;
            current_time = fps_time tk
        in case float_div 1 (float_sub current_time (last_time self2)) of
             Inl e \<Rightarrow> Inl (e, self2, w4)
           | Inr f \<Rightarrow>
               let self3 = self2\<lparr>fps := f, last_time := current_time\<rparr>;
                   w5 = (if bot_frame_count self3 mod 30 = 0 then emit [LogInfo] w4 else w4);
                   elapsed = float_sub (end_time tk) (loop_start tk)
               in if elapsed < frame_time self3
                  then (case time_sleep (float_sub (frame_time self3) elapsed) w5 of
                          Inl e \<Rightarrow> Inl (e, self3, w5)
                        | Inr w6 \<Rightarrow> Inr (self3, w6))
                  else Inr (self3, w5))"

text \<open>The body of \<open>while self.is_running\<close>: \<open>Inr\<close> reaches the next test of the loop.\<close>

definition run_iteration ::
  "'img tick \<Rightarrow> 'img GameBot \<Rightarrow> world \<Rightarrow> error \<times> 'img GameBot \<times> world + 'img GameBot \<times> world" where
  "run_iteration tk self w =
     (case get_frame tk of
        None \<Rightarrow> Inr (self, emit [LogWarning FrameFetchFailed, Sleep (1 / 2)] w)
      | Some frm \<Rightarrow>
          let w1 = emit [DetectCall] w in
          (case detect (detector self) frm None of
             Inl e \<Rightarrow> Inl (e, self, w1)
           | Inr detections \<Rightarrow>
               (case update (strategy self) (update_time tk) frm detections of
                  (strategy', decision) \<Rightarrow>
                    let self1 = self\<lparr>strategy := strategy'\<rparr> in
                    (case (case decision of
                             None \<Rightarrow> Inr w1
                           | Some d \<Rightarrow> execute_action (controller self1) d w1) of
                       Inl e \<Rightarrow> Inl (e, self1, w1)
                     | Inr w2 \<Rightarrow> finish_iteration tk self1 w2))))"

definition stop :: "'img GameBot \<Rightarrow> world \<Rightarrow> 'img GameBot \<times> world" where
  "stop self w =
     (self\<lparr>is_running := False\<rparr>,
      emit [LogInfo, Disconnect, DestroyAllWindows, LogInfo, LogInfo] w)"

text \<open>
  The loop of \<open>run\<close> over the iterations whose inputs are given: the loop itself has no
  bound, so the list is the part of the run that is looked at, and at its end the bot is
  returned as it stands, still in the loop. An exception leaves through \<open>finally\<close>.
\<close>

fun run_loop :: "'img tick list \<Rightarrow> 'img GameBot \<Rightarrow> world \<Rightarrow> error option \<times> 'img GameBot \<times> world" where
  "run_loop [] self w = (None, self, w)"
| "run_loop (tk # tks) self w =
     (if \<not> is_running self then (case stop self w of (self', w') \<Rightarrow> (None, self', w'))
      else
        (case run_iteration tk self w of
           Inl (e, self', w') \<Rightarrow> (case stop self' w' of (self'', w'') \<Rightarrow> (Some e, self'', w''))
         | Inr (self', w') \<Rightarrow> run_loop tks self' w'))"

section \<open>The specification's notions\<close>

text \<open>
  The specification's reading of \<open>analyze_state\<close>: a state matches when one of its
  indicator names is the class name of some detection, and the result is the first
  matching state of the priority list, or \<open>unknown\<close> when none matches.
\<close>

definition state_matches :: "Detection list \<Rightarrow> GameState \<times> string list \<Rightarrow> bool" where
  "state_matches detections e = (\<exists>det \<in> set detections. class_name det \<in> set (snd e))"

definition first_matching_state :: "(GameState \<times> string list) list \<Rightarrow> Detection list \<Rightarrow> GameState" where
  "first_matching_state prio detections =
     (case find (state_matches detections) prio of None \<Rightarrow> UNKNOWN | Some (state, _) \<Rightarrow> state)"

text \<open>The reals that are doubles: rounding leaves them as they are.\<close>

definition is_double :: "real \<Rightarrow> bool" where
  "is_double x \<longleftrightarrow> round_double x = x"

text \<open>A policy after a sequence of calls of \<open>update\<close>, each with its clock reading.\<close>

fun run_updates :: "Strategy \<Rightarrow> (real \<times> 'f \<times> Detection list) list \<Rightarrow> Strategy" where
  "run_updates self [] = self"
| "run_updates self ((now, frm, detections) # calls) =
     run_updates (fst (update self now frm detections)) calls"

text \<open>
  The clock readings of the calls that returned a decision, in order; and the timestamp of
  the last emitted decision, which is the constructor's last-action time as long as no
  decision was emitted.
\<close>

fun emitted_times :: "Strategy \<Rightarrow> (real \<times> 'f \<times> Detection list) list \<Rightarrow> real list" where
  "emitted_times self [] = []"
| "emitted_times self ((now, frm, detections) # calls) =
     (case update self now frm detections of
        (self', None) \<Rightarrow> emitted_times self' calls
      | (self', Some d) \<Rightarrow> now # emitted_times self' calls)"

definition last_decision_time :: "Strategy \<Rightarrow> (real \<times> 'f \<times> Detection list) list \<Rightarrow> real" where
  "last_decision_time self calls =
     (if emitted_times self calls = [] then last_action_time self else last (emitted_times self calls))"

text \<open>
  What holds of every state that a policy passes through when it is built with no action
  yet (last-action time 0) and a cooldown of 0.5 and is then only updated, at clock
  readings that are doubles: the cooldown is 0.5, and the last-action time is a double
  that is 0 or at least 0.5.
\<close>

definition settled :: "Strategy \<Rightarrow> bool" where
  "settled self \<longleftrightarrow>
     action_cooldown self = 1 / 2 \<and> is_double (last_action_time self)
     \<and> (last_action_time self = 0 \<or> 1 / 2 \<le> last_action_time self)"

text \<open>A detection as the constructor \<open>Detection(...)\<close> builds it, for the examples.\<close>

definition mk_detection :: "int \<Rightarrow> string \<Rightarrow> int \<times> int \<times> int \<times> int \<Rightarrow> int \<times> int \<Rightarrow> Detection" where
  "mk_detection i n b c = \<lparr>class_id = i, class_name = n, confidence = 19 / 20, bbox = b, center = c\<rparr>"

text \<open>A frame's detections in which only the start button is seen.\<close>

definition menu_frame :: "Detection list" where
  "menu_frame = [mk_detection 0 ''start_button'' (100, 200, 300, 400) (200, 300)]"

text \<open>A loaded detector, a running bot, a failed frame fetch and a host, for the examples.\<close>

definition example_detector :: "unit YOLODetector" where
  "example_detector =
     \<lparr>model_path = ''models/best.pt'', conf_threshold = 1 / 4, iou_threshold = 9 / 20,
      use_gpu = False, model = Some (YOLO (\<lambda>img c i. [])), class_names = [''start_button'', ''enemy''],
      model_type = ultralytics\<rparr>"

definition example_bot :: "unit GameBot" where
  "example_bot =
     \<lparr>is_running = True, bot_frame_count = 12, fps = 30, detector = example_detector,
      strategy = SimpleStrategy_init, controller = android, frame_time = 1 / 30,
      enable_viz = False, save_screenshots = False, screenshot_interval = 100,
      last_time = 50\<rparr>"

definition null_tick :: "unit tick" where
  "null_tick = \<lparr>loop_start = 51, get_frame = None, update_time = 51, fps_time = 51, end_time = 51\<rparr>"

definition quiet_world :: world where
  "quiet_world = \<lparr>rng = (\<lambda>n. 0), trace = []\<rparr>"

definition example_host :: "unit host" where
  "example_host =
     \<lparr>suffix_of = (\<lambda>p. if p = ''models/best.PT'' then ''.PT'' else if p = ''models/net.onnx'' then ''.onnx'' else ''.txt''),
      path_exists = (\<lambda>p. p = ''models/best.PT''),
      load_YOLO = (\<lambda>p g. Inr (\<lambda>img c i. [], [''start_button'', ''enemy''])),
      load_ort = (\<lambda>p g. Inr ())\<rparr>"

text \<open>
  The largest offset that the platform's own \<open>tap\<close> adds on each axis: the Android
  controller draws one from \<open>-2..2\<close>, the iOS controller adds none.
\<close>

definition tap_jitter :: "platform \<Rightarrow> int" where
  "tap_jitter p = (case p of android \<Rightarrow> 2 | ios \<Rightarrow> 0)"

text \<open>Raw draws under which every offset takes its largest value, and a world with no events yet.\<close>

definition high_draws :: "nat \<Rightarrow> nat" where
  "high_draws n = (if n < 2 then 10 else 4)"

definition fresh_world :: "(nat \<Rightarrow> nat) \<Rightarrow> world" where
  "fresh_world g = \<lparr>rng = g, trace = []\<rparr>"

definition enemy_frame :: "Detection list" where
  "enemy_frame = [mk_detection 0 ''enemy'' (10, 10, 50, 50) (30, 30)]"

text \<open>The events of a result.\<close>

definition events_of :: "error + world \<Rightarrow> error + event list" where
  "events_of r = (case r of Inl e \<Rightarrow> Inl e | Inr w \<Rightarrow> Inr (trace w))"

text \<open>
  Float arithmetic, for the smooth swipe. \<open>rounds_within e fl pw\<close>: on the magnitudes that
  occur there (at most 1024 for a result, at most 2 for a base that is squared), a rounded
  result is within \<open>e\<close> of the exact one. \<open>exact_on_integers fl pw\<close>: an integer of
  magnitude at most 1024 is returned as it is, and the square of 1 is 1. Double arithmetic,
  with \<open>double_square\<close> for a correctly rounded \<open>x ** 2\<close>, has both properties.
\<close>

definition rounds_within :: "real \<Rightarrow> (real \<Rightarrow> real) \<Rightarrow> (real \<Rightarrow> real) \<Rightarrow> bool" where
  "rounds_within e fl pw \<longleftrightarrow>
     (\<forall>x. \<bar>x\<bar> \<le> 1024 \<longrightarrow> \<bar>fl x - x\<bar> \<le> e) \<and> (\<forall>x. \<bar>x\<bar> \<le> 2 \<longrightarrow> \<bar>pw x - x * x\<bar> \<le> e)"

definition exact_on_integers :: "(real \<Rightarrow> real) \<Rightarrow> (real \<Rightarrow> real) \<Rightarrow> bool" where
  "exact_on_integers fl pw \<longleftrightarrow>
     (\<forall>n :: int. \<bar>n\<bar> \<le> 1024 \<longrightarrow> fl (of_int n) = of_int n) \<and> pw 1 = 1"

definition double_square :: "real \<Rightarrow> real" where
  "double_square x = round_double (x * x)"

text \<open>Raw draws under which the control point gets its highest offset.\<close>

definition highest_draws :: "nat \<Rightarrow> nat" where
  "highest_draws n = 100"

text \<open>
  The x coordinate of the curve from (0,0) to (100,0) at step \<open>n\<close> of 20 with the control
  point at \<open>c\<close>, in exact arithmetic and before truncation.
\<close>

definition exact_x :: "real \<Rightarrow> nat \<Rightarrow> real" where
  "exact_x c n = 2 * (1 - real n / 20) * (real n / 20) * c + 100 * ((real n / 20) * (real n / 20))"

text \<open>The x coordinates of a computed path.\<close>

definition xs_of :: "error \<times> world + (int \<times> int) list \<times> world \<Rightarrow> int list" where
  "xs_of r = (case r of Inl _ \<Rightarrow> [] | Inr (points, _) \<Rightarrow> map fst points)"

section \<open>State classification\<close>

lemma indicators_loop_iff:
  "indicators_loop detections indicators \<longleftrightarrow> (\<exists>det \<in> set detections. class_name det \<in> set indicators)"
  by (induction indicators) (auto simp: has_detection_def list_ex_iff)

lemma states_loop_first: "states_loop detections prio = first_matching_state prio detections"
  by (induction prio) (auto simp: first_matching_state_def state_matches_def indicators_loop_iff)

lemma states_loop_Nil: "states_loop [] prio = UNKNOWN"
  by (induction prio) (auto simp: indicators_loop_iff)

text \<open>
  C1. With the indicators of the reference policy, whose states are in the order menu,
  battle, reward, loading, \<open>analyze_state\<close> returns the first state of that order one of
  whose indicator names is the class name of some detection (and \<open>unknown\<close> when there is
  none). In particular a list holding both a \<open>start_button\<close> and an \<open>enemy\<close> detection
  gives menu, although the indicators of battle match too.
\<close>

theorem analyze_state_priority:
  assumes "state_indicators self = state_indicators SimpleStrategy_init"
  shows "map fst (state_indicators self) = [MENU, BATTLE, REWARD, LOADING]
   \<and> analyze_state self frm detections = first_matching_state (state_indicators self) detections
   \<and> ((\<exists>d \<in> set detections. class_name d = ''start_button'') \<and>
      (\<exists>d \<in> set detections. class_name d = ''enemy'')
      \<longrightarrow> analyze_state self frm detections = MENU)"
proof -
  have order: "map fst (state_indicators self) = [MENU, BATTLE, REWARD, LOADING]"
    using assms by (simp add: SimpleStrategy_init_def)
  have first: "analyze_state self frm detections = first_matching_state (state_indicators self) detections"
    by (simp add: analyze_state_def states_loop_first)
  have menu: "analyze_state self frm detections = MENU"
    if "\<exists>d \<in> set detections. class_name d = ''start_button''"
    using that assms by (auto simp: analyze_state_def SimpleStrategy_init_def indicators_loop_iff)
  from order first menu show ?thesis by blast
qed

theorem analyze_state_priority_witness:
  "analyze_state (SimpleStrategy_init\<lparr>frame_count := 7\<rparr>) ()
     [mk_detection 3 ''enemy'' (10, 10, 50, 50) (30, 30),
      mk_detection 0 ''start_button'' (100, 200, 300, 400) (200, 300)] = MENU
   \<and> map fst (state_indicators (SimpleStrategy_init\<lparr>frame_count := 7\<rparr>)) =
       [MENU, BATTLE, REWARD, LOADING]"
proof -
  let ?self = "SimpleStrategy_init\<lparr>frame_count := 7\<rparr>"
  let ?dets = "[mk_detection 3 ''enemy'' (10, 10, 50, 50) (30, 30),
      mk_detection 0 ''start_button'' (100, 200, 300, 400) (200, 300)]"
  have h: "state_indicators ?self = state_indicators SimpleStrategy_init"
    by simp
  have s: "\<exists>d \<in> set ?dets. class_name d = ''start_button''"
    by (simp add: mk_detection_def)
  have e: "\<exists>d \<in> set ?dets. class_name d = ''enemy''"
    by (simp add: mk_detection_def)
  from analyze_state_priority [OF h, of "()" ?dets] s e show ?thesis
    by blast
qed

text \<open>
  C4. On the empty detection list \<open>analyze_state\<close> returns \<open>unknown\<close>, for every frame and
  whatever the indicators are; and for every frame and detection list \<open>make_decision\<close>
  with the state \<open>unknown\<close> returns the decision \<open>wait\<close> with no parameters.
\<close>

theorem no_detections_unknown_wait:
  "analyze_state self frm [] = UNKNOWN
   \<and> make_decision self frm detections UNKNOWN = \<lparr>action = ''wait'', params = []\<rparr>"
  by (simp add: analyze_state_def states_loop_Nil make_decision_def wait_def)

section \<open>Decisions\<close>

lemma first_of_filter:
  "(case filter P xs of [] \<Rightarrow> a | x # _ \<Rightarrow> f x) = (case find P xs of None \<Rightarrow> a | Some x \<Rightarrow> f x)"
  by (induction xs) auto

lemma handle_menu_find:
  "handle_menu detections =
     (case find (\<lambda>d. class_name d = ''start_button'') detections of
        None \<Rightarrow> wait | Some button \<Rightarrow> tap_at (center button))"
  unfolding handle_menu_def get_detections_by_class_def
  by (rule first_of_filter)

text \<open>
  C5. In the state menu, when \<open>button\<close> is the first detection of class \<open>start_button\<close>,
  \<open>make_decision\<close> returns a tap at the center stored in \<open>button\<close>; when its box is
  (100,200,300,400) and its center the midpoint of that box, the decision is the tap at
  (200,300). With no \<open>start_button\<close> detection the decision is \<open>wait\<close>. The detector's
  parse loop gives the box (100,200,300,400) exactly that midpoint as its center.
\<close>

theorem menu_taps_first_start_button:
  "(find (\<lambda>d. class_name d = ''start_button'') detections = Some button
      \<longrightarrow> make_decision self frm detections MENU =
           \<lparr>action = ''tap'', params = [(''x'', fst (center button)), (''y'', snd (center button))]\<rparr>)
   \<and> (find (\<lambda>d. class_name d = ''start_button'') detections = Some button
        \<and> bbox button = (100, 200, 300, 400)
        \<and> center button = ((100 + 300) div 2, (200 + 400) div 2)
      \<longrightarrow> make_decision self frm detections MENU =
           \<lparr>action = ''tap'', params = [(''x'', 200), (''y'', 300)]\<rparr>)
   \<and> (find (\<lambda>d. class_name d = ''start_button'') detections = None
      \<longrightarrow> make_decision self frm detections MENU = \<lparr>action = ''wait'', params = []\<rparr>)
   \<and> parse_box [''start_button''] None \<lparr>cls = 0, conf = c, xyxy = (100, 200, 300, 400)\<rparr> =
       Inr (Some \<lparr>class_id = 0, class_name = ''start_button'', confidence = c,
                  bbox = (100, 200, 300, 400), center = (200, 300)\<rparr>)"
proof -
  have tap: "make_decision self frm detections MENU =
      \<lparr>action = ''tap'', params = [(''x'', fst (center button)), (''y'', snd (center button))]\<rparr>"
    if "find (\<lambda>d. class_name d = ''start_button'') detections = Some button"
    using that by (simp add: make_decision_def handle_menu_find tap_at_def split: prod.splits)
  have none: "make_decision self frm detections MENU = \<lparr>action = ''wait'', params = []\<rparr>"
    if "find (\<lambda>d. class_name d = ''start_button'') detections = None"
    using that by (simp add: make_decision_def handle_menu_find wait_def)
  have box: "parse_box [''start_button''] None \<lparr>cls = 0, conf = c, xyxy = (100, 200, 300, 400)\<rparr> =
       Inr (Some \<lparr>class_id = 0, class_name = ''start_button'', confidence = c,
                  bbox = (100, 200, 300, 400), center = (200, 300)\<rparr>)"
    by (simp add: parse_box_def py_int_def py_index_def)
  have "make_decision self frm detections MENU = \<lparr>action = ''tap'', params = [(''x'', 200), (''y'', 300)]\<rparr>"
    if "find (\<lambda>d. class_name d = ''start_button'') detections = Some button"
      and "center button = ((100 + 300) div 2, (200 + 400) div 2)"
    using tap [OF that(1)] that(2) by simp
  with tap none box show ?thesis by blast
qed

theorem menu_taps_first_start_button_witness:
  "make_decision SimpleStrategy_init ()
     [mk_detection 1 ''menu_bg'' (0, 0, 720, 1280) (360, 640),
      mk_detection 0 ''start_button'' (100, 200, 300, 400) (200, 300),
      mk_detection 0 ''start_button'' (500, 600, 700, 800) (600, 700)] MENU =
     \<lparr>action = ''tap'', params = [(''x'', 200), (''y'', 300)]\<rparr>
   \<and> make_decision SimpleStrategy_init ()
        [mk_detection 1 ''menu_bg'' (0, 0, 720, 1280) (360, 640)] MENU =
        \<lparr>action = ''wait'', params = []\<rparr>"
  using menu_taps_first_start_button [of
      "[mk_detection 1 ''menu_bg'' (0, 0, 720, 1280) (360, 640),
        mk_detection 0 ''start_button'' (100, 200, 300, 400) (200, 300),
        mk_detection 0 ''start_button'' (500, 600, 700, 800) (600, 700)]"
      "mk_detection 0 ''start_button'' (100, 200, 300, 400) (200, 300)"
      SimpleStrategy_init "()"]
    menu_taps_first_start_button [of
      "[mk_detection 1 ''menu_bg'' (0, 0, 720, 1280) (360, 640)]"
      "mk_detection 0 ''start_button'' (100, 200, 300, 400) (200, 300)"
      SimpleStrategy_init "()"]
  by (simp add: mk_detection_def)

section \<open>Properties of the double arithmetic\<close>

lemma round_half_even_close: "\<bar>of_int (round_half_even y) - y\<bar> \<le> 1 / 2"
  unfolding round_half_even_def Let_def by (auto simp: abs_le_iff)

lemma round_half_even_of_int: "round_half_even (of_int n) = n"
  by (simp add: round_half_even_def)

lemma round_half_even_ge: "of_int n \<le> y \<Longrightarrow> n \<le> round_half_even y"
proof -
  assume "of_int n \<le> y"
  then have "n \<le> \<lfloor>y\<rfloor>" by (simp add: le_floor_iff)
  moreover have "\<lfloor>y\<rfloor> \<le> round_half_even y"
    by (simp add: round_half_even_def Let_def)
  ultimately show ?thesis by simp
qed

lemma round_half_even_le: "y \<le> of_int n \<Longrightarrow> round_half_even y \<le> n"
proof -
  assume le: "y \<le> of_int n"
  show ?thesis
  proof (cases "y = of_int n")
    case True
    then show ?thesis by (simp add: round_half_even_of_int)
  next
    case False
    with le have "y < of_int n" by simp
    then have "\<lfloor>y\<rfloor> < n" by (simp add: floor_less_iff)
    moreover have "round_half_even y \<le> \<lfloor>y\<rfloor> + 1"
      by (simp add: round_half_even_def Let_def)
    ultimately show ?thesis by simp
  qed
qed

lemma binade_up_ge: "e \<le> binade_up n x e"
proof (induction n arbitrary: e)
  case 0
  show ?case by simp
next
  case (Suc n)
  from Suc [of "e + 1"] show ?case by simp
qed

lemma binade_up_le: "binade_up n x e \<le> e + int n"
proof (induction n arbitrary: e)
  case 0
  show ?case by simp
next
  case (Suc n)
  from Suc [of "e + 1"] show ?case by simp
qed

lemma binade_up_lower: "2 powi e \<le> x \<Longrightarrow> 2 powi (binade_up n x e) \<le> x"
proof (induction n arbitrary: e)
  case 0
  then show ?case by simp
next
  case (Suc n)
  show ?case
  proof (cases "x < 2 powi (e + 1)")
    case True
    with Suc.prems show ?thesis by simp
  next
    case False
    then have "2 powi (e + 1) \<le> x" by simp
    from Suc.IH [OF this] False show ?thesis by simp
  qed
qed

lemma binade_up_upper: "binade_up n x e < e + int n \<Longrightarrow> x < 2 powi (binade_up n x e + 1)"
proof (induction n arbitrary: e)
  case 0
  then show ?case by simp
next
  case (Suc n)
  show ?case
  proof (cases "x < 2 powi (e + 1)")
    case True
    then show ?thesis by simp
  next
    case False
    with Suc.prems have "binade_up n x (e + 1) < (e + 1) + int n" by simp
    from Suc.IH [OF this] False show ?thesis by simp
  qed
qed

lemma binade_down_le: "binade_down n x e \<le> e"
proof (induction n arbitrary: e)
  case 0
  show ?case by simp
next
  case (Suc n)
  from Suc [of "e - 1"] show ?case by simp
qed

lemma binade_down_ge: "e - int n \<le> binade_down n x e"
proof (induction n arbitrary: e)
  case 0
  show ?case by simp
next
  case (Suc n)
  from Suc [of "e - 1"] show ?case by simp
qed

lemma binade_down_upper: "x < 2 powi (e + 1) \<Longrightarrow> x < 2 powi (binade_down n x e + 1)"
proof (induction n arbitrary: e)
  case 0
  then show ?case by simp
next
  case (Suc n)
  show ?case
  proof (cases "2 powi e \<le> x")
    case True
    with Suc.prems show ?thesis by simp
  next
    case False
    then have "x < 2 powi ((e - 1) + 1)" by simp
    from Suc.IH [OF this] False show ?thesis by simp
  qed
qed

lemma binade_down_lower: "e - int n < binade_down n x e \<Longrightarrow> 2 powi (binade_down n x e) \<le> x"
proof (induction n arbitrary: e)
  case 0
  then show ?case by simp
next
  case (Suc n)
  show ?case
  proof (cases "2 powi e \<le> x")
    case True
    then show ?thesis by simp
  next
    case False
    with Suc.prems have "(e - 1) - int n < binade_down n x (e - 1)" by simp
    from Suc.IH [OF this] False show ?thesis by simp
  qed
qed

lemma binade_range: "- 1022 \<le> binade x" "binade x \<le> 1023"
  using binade_up_ge [of 0 1023 "\<bar>x\<bar>"] binade_up_le [of 1023 "\<bar>x\<bar>" 0]
    binade_down_ge [of "- 1" 1021 "\<bar>x\<bar>"] binade_down_le [of 1021 "\<bar>x\<bar>" "- 1"]
  by (auto simp: binade_def)

lemma binade_lower:
  assumes "- 1022 < binade x"
  shows "2 powi binade x \<le> \<bar>x\<bar>"
proof -
  from assms have nz: "x \<noteq> 0" by (auto simp: binade_def)
  show ?thesis
  proof (cases "1 \<le> \<bar>x\<bar>")
    case True
    then have "2 powi (0::int) \<le> \<bar>x\<bar>" by simp
    from binade_up_lower [OF this, of 1023] True nz show ?thesis by (simp add: binade_def)
  next
    case False
    with assms nz have "(- 1) - int 1021 < binade_down 1021 \<bar>x\<bar> (- 1)" by (simp add: binade_def)
    from binade_down_lower [OF this] False nz show ?thesis by (simp add: binade_def)
  qed
qed

lemma binade_upper:
  assumes "binade x < 1023"
  shows "\<bar>x\<bar> < 2 powi (binade x + 1)"
proof (cases "x = 0")
  case True
  then show ?thesis by (simp add: binade_def)
next
  case nz: False
  show ?thesis
  proof (cases "1 \<le> \<bar>x\<bar>")
    case True
    with assms nz have "binade_up 1023 \<bar>x\<bar> 0 < 0 + int 1023" by (simp add: binade_def)
    from binade_up_upper [OF this] True nz show ?thesis by (simp add: binade_def)
  next
    case False
    then have "\<bar>x\<bar> < 2 powi ((- 1) + 1)" by simp
    from binade_down_upper [OF this, of 1021] False nz show ?thesis by (simp add: binade_def)
  qed
qed

lemma binade_le:
  assumes "\<bar>x\<bar> < 2 powi (k + 1)" and "- 1022 \<le> k"
  shows "binade x \<le> k"
proof (rule ccontr)
  assume "\<not> binade x \<le> k"
  then have gt: "k + 1 \<le> binade x" by simp
  with assms(2) have "2 powi binade x \<le> \<bar>x\<bar>" by (intro binade_lower) simp
  moreover from gt have "(2::real) powi (k + 1) \<le> 2 powi binade x"
    by (intro power_int_increasing) simp_all
  ultimately show False using assms(1) by simp
qed

lemma binade_mono:
  assumes "\<bar>x\<bar> \<le> \<bar>y\<bar>"
  shows "binade x \<le> binade y"
proof (cases "binade y < 1023")
  case True
  from binade_upper [OF True] assms have "\<bar>x\<bar> < 2 powi (binade y + 1)" by simp
  then show ?thesis using binade_range(1) [of y] by (rule binade_le)
next
  case False
  with binade_range(2) [of x] show ?thesis by simp
qed

lemma round_double_error: "\<bar>round_double x - x\<bar> \<le> 2 powi (binade x - 53)"
proof -
  define q :: real where "q = 2 powi (binade x - 52)"
  have q: "0 < q" by (simp add: q_def)
  have "round_double x - x = (of_int (round_half_even (x / q)) - x / q) * q"
    using q by (simp add: round_double_def q_def [symmetric] algebra_simps)
  then have "\<bar>round_double x - x\<bar> = \<bar>of_int (round_half_even (x / q)) - x / q\<bar> * q"
    using q by (simp add: abs_mult)
  also have "\<dots> \<le> 1 / 2 * q"
    using q round_half_even_close [of "x / q"] by (intro mult_right_mono) simp_all
  also have "1 / 2 * q = 2 powi (binade x - 53)"
    using power_int_add [of "2::real" "binade x - 53" 1] by (simp add: q_def)
  finally show ?thesis .
qed

lemma round_double_nonpos: "x \<le> 0 \<Longrightarrow> round_double x \<le> 0"
proof -
  assume x: "x \<le> 0"
  define q :: real where "q = 2 powi (binade x - 52)"
  have q: "0 < q" by (simp add: q_def)
  with x have "x / q \<le> of_int 0" by (simp add: divide_nonpos_pos)
  then have "round_half_even (x / q) \<le> 0" by (rule round_half_even_le)
  then have "of_int (round_half_even (x / q)) * q \<le> 0"
    using q by (simp add: mult_le_0_iff)
  then show ?thesis by (simp add: round_double_def q_def)
qed

lemma powi_split:
  assumes "e1 \<le> e2"
  shows "(2::real) powi e2 = of_int (2 ^ nat (e2 - e1)) * 2 powi e1"
proof -
  have "(2::real) powi ((e2 - e1) + e1) = 2 powi (e2 - e1) * 2 powi e1"
    by (intro power_int_add) simp
  moreover have "(2::real) powi (e2 - e1) = 2 ^ nat (e2 - e1)"
    using assms by (simp add: power_int_def)
  ultimately show ?thesis by simp
qed

lemma multiple_is_double:
  assumes x: "x = of_int n * 2 powi (k - 52)" and k: "binade x \<le> k"
  shows "round_double x = x"
proof -
  define q :: real where "q = 2 powi (binade x - 52)"
  have q: "0 < q" by (simp add: q_def)
  from k have "(2::real) powi (k - 52) = of_int (2 ^ nat ((k - 52) - (binade x - 52))) * q"
    unfolding q_def by (intro powi_split) simp
  with x have xq: "x = of_int (n * 2 ^ nat ((k - 52) - (binade x - 52))) * q" by simp
  have "x / q = of_int (n * 2 ^ nat ((k - 52) - (binade x - 52))) * q / q"
    using xq by simp
  then have "x / q = of_int (n * 2 ^ nat ((k - 52) - (binade x - 52)))"
    using q by simp
  then have "of_int (round_half_even (x / q)) = x / q"
    by (simp only: round_half_even_of_int)
  then show ?thesis using q by (simp add: round_double_def q_def [symmetric])
qed

lemma double_is_multiple:
  assumes "is_double x"
  shows "\<exists>n. x = of_int n * 2 powi (binade x - 52)"
  using assms unfolding is_double_def round_double_def by metis

lemma is_double_diff:
  assumes a: "is_double a" and b: "is_double b"
    and da: "\<bar>a - b\<bar> \<le> \<bar>a\<bar>" and db: "\<bar>a - b\<bar> \<le> \<bar>b\<bar>"
  shows "is_double (a - b)"
proof -
  define k where "k = min (binade a) (binade b)"
  obtain na where na: "a = of_int na * 2 powi (binade a - 52)"
    using double_is_multiple [OF a] by blast
  obtain nb where nb: "b = of_int nb * 2 powi (binade b - 52)"
    using double_is_multiple [OF b] by blast
  have "(2::real) powi (binade a - 52) = of_int (2 ^ nat ((binade a - 52) - (k - 52))) * 2 powi (k - 52)"
    by (intro powi_split) (simp add: k_def)
  with na have a': "a = of_int (na * 2 ^ nat ((binade a - 52) - (k - 52))) * 2 powi (k - 52)"
    by simp
  have "(2::real) powi (binade b - 52) = of_int (2 ^ nat ((binade b - 52) - (k - 52))) * 2 powi (k - 52)"
    by (intro powi_split) (simp add: k_def)
  with nb have b': "b = of_int (nb * 2 ^ nat ((binade b - 52) - (k - 52))) * 2 powi (k - 52)"
    by simp
  have "a - b = of_int (na * 2 ^ nat ((binade a - 52) - (k - 52))
      - nb * 2 ^ nat ((binade b - 52) - (k - 52))) * 2 powi (k - 52)"
    by (subst a', subst b') (simp add: algebra_simps)
  moreover have "binade (a - b) \<le> k"
    using binade_mono [OF da] binade_mono [OF db] by (simp add: k_def)
  ultimately have "round_double (a - b) = a - b" by (rule multiple_is_double)
  then show ?thesis by (simp add: is_double_def)
qed

lemma round_double_ge_half:
  assumes "1 / 2 \<le> x"
  shows "1 / 2 \<le> round_double x"
proof -
  define e where "e = binade x"
  define q :: real where "q = 2 powi (e - 52)"
  have q: "0 < q" by (simp add: q_def)
  have e: "- 1 \<le> e"
  proof (rule ccontr)
    assume "\<not> - 1 \<le> e"
    then have lt: "e + 1 \<le> - 1" by simp
    then have "binade x < 1023" by (simp add: e_def)
    then have "\<bar>x\<bar> < 2 powi (e + 1)" unfolding e_def by (rule binade_upper)
    also from lt have "(2::real) powi (e + 1) \<le> 2 powi (- 1)"
      by (intro power_int_increasing) simp_all
    finally show False using assms by simp
  qed
  then have low: "2 powi e \<le> \<bar>x\<bar>" unfolding e_def by (intro binade_lower) simp
  have split: "(2::real) powi e = of_int (2 ^ nat (e - (e - 52))) * q"
    unfolding q_def by (intro powi_split) simp
  with low assms have "of_int (2 ^ 52) * q \<le> x" by simp
  then have "of_int (2 ^ 52) \<le> x / q" using q by (simp add: pos_le_divide_eq)
  then have "2 ^ 52 \<le> round_half_even (x / q)" by (rule round_half_even_ge)
  then have "(of_int (2 ^ 52) :: real) \<le> of_int (round_half_even (x / q))"
    by (simp only: of_int_le_iff)
  then have "of_int (2 ^ 52) * q \<le> of_int (round_half_even (x / q)) * q"
    using q by (intro mult_right_mono) simp_all
  with split have "2 powi e \<le> round_double x"
    by (simp add: round_double_def q_def e_def)
  moreover from e have "(2::real) powi (- 1) \<le> 2 powi e"
    by (intro power_int_increasing) simp_all
  ultimately show ?thesis by simp
qed

lemma round_double_of_int:
  assumes "\<bar>n\<bar> \<le> 1024"
  shows "round_double (of_int n) = of_int n"
proof (rule multiple_is_double [where k = 10 and n = "n * 2 ^ 42"])
  show "real_of_int n = of_int (n * 2 ^ 42) * 2 powi (10 - 52)"
    by simp
  have "\<bar>real_of_int n\<bar> \<le> 1024" using assms by linarith
  then have "\<bar>real_of_int n\<bar> < 2 powi (10 + 1)" by simp
  then show "binade (real_of_int n) \<le> 10" by (rule binade_le) simp
qed

lemma round_double_small_error:
  assumes "\<bar>x\<bar> \<le> 1024"
  shows "\<bar>round_double x - x\<bar> \<le> 1 / 2 ^ 43"
proof -
  from assms have "\<bar>x\<bar> < 2 powi (10 + 1)" by simp
  then have "binade x \<le> 10" by (rule binade_le) simp
  then have "(2::real) powi (binade x - 53) \<le> 2 powi (- 43)"
    by (intro power_int_increasing) simp_all
  with round_double_error [of x] show ?thesis by (simp add: power_int_minus_divide)
qed

section \<open>The cooldown gate\<close>

lemma BaseStrategy_update_suppressed:
  assumes "float_sub now (last_action_time self) < action_cooldown self"
  shows "BaseStrategy_update analyze decide self now frm detections =
     (self\<lparr>frame_count := frame_count self + 1,
            current_state := analyze (self\<lparr>frame_count := frame_count self + 1\<rparr>) frm detections\<rparr>, None)"
  using assms by (simp add: BaseStrategy_update_def Let_def)

lemma update_suppressed:
  assumes "float_sub now (last_action_time self) < action_cooldown self"
  shows "update self now frm detections =
     (self\<lparr>frame_count := frame_count self + 1,
            current_state := analyze_state self frm detections\<rparr>, None)"
  unfolding update_def BaseStrategy_update_suppressed [OF assms]
  by (simp add: analyze_state_def)

lemma update_emitted:
  assumes "\<not> float_sub now (last_action_time self) < action_cooldown self"
  shows "update self now frm detections =
     (self\<lparr>frame_count := frame_count self + 1,
            current_state := analyze_state self frm detections,
            last_action_time := now\<rparr>,
      Some (make_decision self frm detections (analyze_state self frm detections)))"
  using assms by (simp add: update_def BaseStrategy_update_def Let_def analyze_state_def make_decision_def)


lemma is_double_0: "is_double 0"
  using round_double_of_int [of 0] by (simp add: is_double_def)

lemma settled_gate:
  assumes s: "settled self" and t: "is_double now"
  shows "float_sub now (last_action_time self) < 1 / 2 \<longleftrightarrow> now - last_action_time self < 1 / 2"
proof (cases "last_action_time self = 0")
  case True
  with t show ?thesis by (simp add: float_sub_def is_double_def)
next
  case False
  with s have last: "1 / 2 \<le> last_action_time self" "is_double (last_action_time self)"
    by (simp_all add: settled_def)
  show ?thesis
  proof
    assume r: "float_sub now (last_action_time self) < 1 / 2"
    show "now - last_action_time self < 1 / 2"
    proof (rule ccontr)
      assume "\<not> now - last_action_time self < 1 / 2"
      then have "1 / 2 \<le> round_double (now - last_action_time self)"
        by (intro round_double_ge_half) simp
      with r show False by (simp add: float_sub_def)
    qed
  next
    assume d: "now - last_action_time self < 1 / 2"
    show "float_sub now (last_action_time self) < 1 / 2"
    proof (cases "now - last_action_time self \<le> 0")
      case True
      then have "round_double (now - last_action_time self) \<le> 0" by (rule round_double_nonpos)
      then show ?thesis by (simp add: float_sub_def)
    next
      case False
      with d last have "\<bar>now - last_action_time self\<bar> \<le> \<bar>now\<bar>"
        "\<bar>now - last_action_time self\<bar> \<le> \<bar>last_action_time self\<bar>" by linarith+
      with t last(2) have "is_double (now - last_action_time self)" by (intro is_double_diff)
      with d show ?thesis by (simp add: float_sub_def is_double_def)
    qed
  qed
qed

lemma settled_update:
  assumes s: "settled self" and t: "is_double now"
  shows "settled (fst (update self now frm detections))"
proof (cases "float_sub now (last_action_time self) < action_cooldown self")
  case True
  with s show ?thesis by (simp add: update_suppressed settled_def)
next
  case False
  with s have "\<not> float_sub now (last_action_time self) < 1 / 2" by (simp add: settled_def)
  with settled_gate [OF s t] have "1 / 2 \<le> now - last_action_time self" by simp
  moreover from s have "0 \<le> last_action_time self" by (auto simp: settled_def)
  ultimately have "1 / 2 \<le> now" by linarith
  with s t False show ?thesis by (simp add: update_emitted settled_def)
qed

lemma settled_run_updates:
  assumes "settled self" and "\<forall>c \<in> set calls. is_double (fst c)"
  shows "settled (run_updates self calls)"
  using assms
proof (induction calls arbitrary: self)
  case Nil
  then show ?case by simp
next
  case (Cons c calls)
  obtain now frm detections where c: "c = (now, frm, detections)" by (cases c)
  with Cons.prems have "settled (fst (update self now frm detections))"
    by (intro settled_update) simp_all
  with Cons.IH Cons.prems c show ?case by simp
qed

lemma last_action_time_update:
  "last_action_time (fst (update self now frm detections)) =
     (case snd (update self now frm detections) of None \<Rightarrow> last_action_time self | Some d \<Rightarrow> now)"
proof (cases "float_sub now (last_action_time self) < action_cooldown self")
  case True
  then show ?thesis by (simp add: update_suppressed)
next
  case False
  then show ?thesis by (simp add: update_emitted)
qed

lemma last_action_time_run_updates:
  "last_action_time (run_updates self calls) = last_decision_time self calls"
proof (induction calls arbitrary: self)
  case Nil
  show ?case by (simp add: last_decision_time_def)
next
  case (Cons c calls)
  obtain now frm detections where c: "c = (now, frm, detections)" by (cases c)
  obtain self' r where u: "update self now frm detections = (self', r)"
    by (cases "update self now frm detections")
  have l: "last_action_time self' = (case r of None \<Rightarrow> last_action_time self | Some d \<Rightarrow> now)"
    using last_action_time_update [of self now frm detections] u by simp
  have "last_action_time (run_updates self (c # calls)) = last_decision_time self' calls"
    using Cons.IH [of self'] c u by simp
  also have "\<dots> = last_decision_time self (c # calls)"
    using c u l by (cases r) (simp_all add: last_decision_time_def)
  finally show ?case .
qed

text \<open>
  C2. Take a policy built with no action yet and a cooldown of 0.5 seconds, after any
  sequence of calls of \<open>update\<close>, and a next call at the reading \<open>now\<close>; the readings of
  the clock are doubles. Its last-action time is the timestamp of the last emitted
  decision. When \<open>now\<close> is less than 0.5 after that timestamp, the call returns no
  decision, whatever \<open>make_decision\<close> would produce (for any pair of abstract methods);
  when at least 0.5 has elapsed, it returns the decision of \<open>make_decision\<close>. On these
  states the float subtraction of the cooldown test is exact or keeps the side of 0.5.
  The second half needs none of this: in any state with the cooldown 0.5, a call at least
  0.5 after the last-action time returns the decision.
\<close>

theorem update_cooldown_gate:
  assumes "last_action_time self0 = 0" and "action_cooldown self0 = 1 / 2"
    and "\<forall>c \<in> set calls. is_double (fst c)" and "is_double now"
  shows "last_action_time (run_updates self0 calls) = last_decision_time self0 calls
    \<and> action_cooldown (run_updates self0 calls) = 1 / 2
    \<and> (now - last_decision_time self0 calls < 1 / 2 \<longrightarrow>
         snd (update (run_updates self0 calls) now frm detections) = None
         \<and> snd (BaseStrategy_update analyze decide (run_updates self0 calls) now frm detections) = None)
    \<and> (1 / 2 \<le> now - last_decision_time self0 calls \<longrightarrow>
         snd (update (run_updates self0 calls) now frm detections) =
           Some (make_decision (run_updates self0 calls) frm detections
                   (analyze_state (run_updates self0 calls) frm detections)))
    \<and> (action_cooldown self = 1 / 2 \<and> 1 / 2 \<le> now - last_action_time self \<longrightarrow>
         snd (update self now frm detections) =
           Some (make_decision self frm detections (analyze_state self frm detections)))"
proof -
  have any: "snd (update self now frm detections) =
      Some (make_decision self frm detections (analyze_state self frm detections))"
    if "action_cooldown self = 1 / 2" "1 / 2 \<le> now - last_action_time self"
  proof -
    from that(2) have "1 / 2 \<le> round_double (now - last_action_time self)"
      by (rule round_double_ge_half)
    with that(1) have ge: "\<not> float_sub now (last_action_time self) < action_cooldown self"
      by (simp add: float_sub_def)
    show ?thesis by (simp add: update_emitted [OF ge])
  qed
  define s where "s = run_updates self0 calls"
  have "settled self0" using assms(1,2) by (simp add: settled_def is_double_0)
  then have st: "settled s" unfolding s_def using assms(3) by (rule settled_run_updates)
  then have cd: "action_cooldown s = 1 / 2" by (simp add: settled_def)
  have l: "last_action_time s = last_decision_time self0 calls"
    unfolding s_def by (rule last_action_time_run_updates)
  note gate = settled_gate [OF st assms(4)]
  have quiet: "snd (update s now frm detections) = None
      \<and> snd (BaseStrategy_update analyze decide s now frm detections) = None"
    if "now - last_decision_time self0 calls < 1 / 2"
  proof -
    from that l gate cd have lt: "float_sub now (last_action_time s) < action_cooldown s"
      by simp
    show ?thesis
      by (simp add: update_suppressed [OF lt] BaseStrategy_update_suppressed [OF lt])
  qed
  have loud: "snd (update s now frm detections) =
      Some (make_decision s frm detections (analyze_state s frm detections))"
    if "1 / 2 \<le> now - last_decision_time self0 calls"
  proof -
    from that l gate cd have ge: "\<not> float_sub now (last_action_time s) < action_cooldown s"
      by simp
    show ?thesis by (simp add: update_emitted [OF ge])
  qed
  from l cd quiet loud any show ?thesis unfolding s_def by blast
qed

lemma double_examples:
  "is_double 100" "is_double (401 / 4)" "is_double (201 / 2)"
  "float_sub (401 / 4) 100 = 1 / 4" "float_sub 100 0 = 100"
  by (simp_all add: is_double_def float_sub_def) code_simp+

lemma menu_frame_tap:
  assumes "state_indicators self' = state_indicators SimpleStrategy_init"
  shows "make_decision self () menu_frame (analyze_state self' () menu_frame) =
      \<lparr>action = ''tap'', params = [(''x'', 200), (''y'', 300)]\<rparr>"
  using assms by (simp add: make_decision_def analyze_state_def SimpleStrategy_init_def has_detection_def
      menu_frame_def mk_detection_def handle_menu_def get_detections_by_class_def tap_at_def)

theorem update_cooldown_gate_witness:
  "last_decision_time SimpleStrategy_init [(100, (), menu_frame)] = 100
   \<and> snd (update (run_updates SimpleStrategy_init [(100, (), menu_frame)]) (401 / 4) () menu_frame) = None
   \<and> snd (update (run_updates SimpleStrategy_init [(100, (), menu_frame)]) (201 / 2) () menu_frame) =
       Some \<lparr>action = ''tap'', params = [(''x'', 200), (''y'', 300)]\<rparr>"
proof -
  let ?calls = "[(100 :: real, (), menu_frame)]"
  have i: "last_action_time SimpleStrategy_init = 0" "action_cooldown SimpleStrategy_init = 1 / 2"
    by (simp_all add: SimpleStrategy_init_def)
  have c: "\<forall>c \<in> set ?calls. is_double (fst c)"
    by (simp add: double_examples)
  have ge: "\<not> float_sub 100 (last_action_time SimpleStrategy_init) < action_cooldown SimpleStrategy_init"
    by (simp add: i double_examples)
  have t: "last_decision_time SimpleStrategy_init ?calls = 100"
    by (simp add: last_decision_time_def update_emitted [OF ge])
  have si: "state_indicators (run_updates SimpleStrategy_init ?calls) = state_indicators SimpleStrategy_init"
    by (simp add: update_emitted [OF ge])
  from update_cooldown_gate [OF i c double_examples(2), of "()" menu_frame]
    update_cooldown_gate [OF i c double_examples(3), of "()" menu_frame]
    t menu_frame_tap [OF si]
  show ?thesis by simp
qed

text \<open>
  A state that no run from the constructor reaches shows the rounding: with the last-action
  time the double 0.1 and the clock at the double 0.6, less than 0.5 has elapsed, the
  float difference is exactly 0.5, and a decision is emitted.
\<close>

lemma cooldown_rounding_example:
  "round_double (3 / 5) - round_double (1 / 10) < 1 / 2
   \<and> float_sub (round_double (3 / 5)) (round_double (1 / 10)) = 1 / 2
   \<and> snd (update (SimpleStrategy_init\<lparr>last_action_time := round_double (1 / 10)\<rparr>)
            (round_double (3 / 5)) () menu_frame) =
       Some \<lparr>action = ''tap'', params = [(''x'', 200), (''y'', 300)]\<rparr>"
proof -
  have a: "round_double (3 / 5) - round_double (1 / 10) < 1 / 2"
    by code_simp
  have b: "float_sub (round_double (3 / 5)) (round_double (1 / 10)) = 1 / 2"
    by code_simp
  have ge: "\<not> float_sub (round_double (3 / 5))
        (last_action_time (SimpleStrategy_init\<lparr>last_action_time := round_double (1 / 10)\<rparr>))
      < action_cooldown (SimpleStrategy_init\<lparr>last_action_time := round_double (1 / 10)\<rparr>)"
    by (simp add: b SimpleStrategy_init_def)
  have "state_indicators (SimpleStrategy_init\<lparr>last_action_time := round_double (1 / 10)\<rparr>) =
      state_indicators SimpleStrategy_init" by simp
  from a b menu_frame_tap [OF this] show ?thesis
    by (simp add: update_emitted [OF ge])
qed

text \<open>
  C3. Every call of \<open>update\<close> stores in \<open>current_state\<close> the state that \<open>analyze_state\<close>
  computes from the detections of this call, also when the cooldown suppresses the
  decision; a suppressed call returns no decision and leaves the last-action time as it
  was. A call returns no decision only when the cooldown suppresses it, that is when the
  float difference of the clock and the last-action time is below the cooldown.
\<close>

theorem update_always_recomputes_state:
  "current_state (fst (update self now frm detections)) = analyze_state self frm detections
   \<and> (float_sub now (last_action_time self) < action_cooldown self \<longrightarrow>
        snd (update self now frm detections) = None
        \<and> current_state (fst (update self now frm detections)) = analyze_state self frm detections
        \<and> last_action_time (fst (update self now frm detections)) = last_action_time self)
   \<and> (snd (update self now frm detections) = None \<longrightarrow>
        float_sub now (last_action_time self) < action_cooldown self
        \<and> current_state (fst (update self now frm detections)) = analyze_state self frm detections
        \<and> last_action_time (fst (update self now frm detections)) = last_action_time self)"
proof (cases "float_sub now (last_action_time self) < action_cooldown self")
  case True
  show ?thesis using True by (simp add: update_suppressed [OF True])
next
  case False
  show ?thesis using False by (simp add: update_emitted [OF False])
qed

theorem update_always_recomputes_state_witness:
  "current_state (fst (update (SimpleStrategy_init\<lparr>last_action_time := 100\<rparr>) (401 / 4) () menu_frame)) = MENU
   \<and> snd (update (SimpleStrategy_init\<lparr>last_action_time := 100\<rparr>) (401 / 4) () menu_frame) = None
   \<and> last_action_time (fst (update (SimpleStrategy_init\<lparr>last_action_time := 100\<rparr>) (401 / 4) () menu_frame)) = 100"
proof -
  have a: "analyze_state (SimpleStrategy_init\<lparr>last_action_time := 100\<rparr>) () menu_frame = MENU"
    by (simp add: analyze_state_def SimpleStrategy_init_def has_detection_def menu_frame_def mk_detection_def)
  have lt: "float_sub (401 / 4) (last_action_time (SimpleStrategy_init\<lparr>last_action_time := 100\<rparr>))
      < action_cooldown (SimpleStrategy_init\<lparr>last_action_time := 100\<rparr>)"
    by (simp add: SimpleStrategy_init_def double_examples)
  from update_always_recomputes_state [of "SimpleStrategy_init\<lparr>last_action_time := 100\<rparr>" "401 / 4" "()" menu_frame]
    a lt show ?thesis by simp
qed

section \<open>Construction of the detector\<close>

lemma lower_examples: "lower ''.PT'' = ''.pt''" "lower ''.onnx'' = ''.onnx''" "lower ''.txt'' = ''.txt''"
  by (simp_all add: lower_def lower_char_def)

text \<open>
  C9. Constructing the detector raises when the (lower-cased) suffix of the model path is
  neither \<open>.pt\<close> nor \<open>.onnx\<close> (a \<open>ValueError\<close>), and when the model file does not exist
  (a \<open>FileNotFoundError\<close> once the suffix is accepted); \<open>detect\<close> on a detector whose
  model is \<open>None\<close> raises a \<open>RuntimeError\<close>; and for an existing \<open>.pt\<close> or \<open>.onnx\<close> path
  the construction goes on to the loader of that format, whose outcome is the
  constructor's.
\<close>

theorem detector_construction_errors:
  "(lower (suffix_of h path) \<noteq> ''.pt'' \<and> lower (suffix_of h path) \<noteq> ''.onnx'' \<longrightarrow>
      YOLODetector_init h path ct it gpu = Inl ValueError)
   \<and> (\<not> path_exists h path \<longrightarrow>
      YOLODetector_init h path ct it gpu =
        Inl (if lower (suffix_of h path) = ''.pt'' \<or> lower (suffix_of h path) = ''.onnx''
             then FileNotFoundError else ValueError))
   \<and> (model self = None \<longrightarrow> detect self img filter_classes = Inl RuntimeError)
   \<and> (lower (suffix_of h path) = ''.pt'' \<and> path_exists h path \<longrightarrow>
      YOLODetector_init h path ct it gpu =
        (case load_YOLO h path gpu of
           Inl e \<Rightarrow> Inl e
         | Inr (m, names) \<Rightarrow>
             Inr \<lparr>model_path = path, conf_threshold = ct, iou_threshold = it, use_gpu = gpu,
                  model = Some (YOLO m), class_names = names, model_type = ultralytics\<rparr>))
   \<and> (lower (suffix_of h path) = ''.onnx'' \<and> path_exists h path \<longrightarrow>
      YOLODetector_init h path ct it gpu =
        (case load_ort h path gpu of
           Inl e \<Rightarrow> Inl e
         | Inr u \<Rightarrow>
             Inr \<lparr>model_path = path, conf_threshold = ct, iou_threshold = it, use_gpu = gpu,
                  model = Some InferenceSession, class_names = [], model_type = onnx\<rparr>))"
  by (auto simp: YOLODetector_init_def detect_model_type_def load_model_def detect_def
      load_ultralytics_model_def load_onnx_model_def Let_def split: sum.splits prod.splits)

theorem detector_construction_errors_witness:
  "YOLODetector_init example_host ''notes.txt'' (1 / 4) (9 / 20) False = Inl ValueError
   \<and> YOLODetector_init example_host ''models/net.onnx'' (1 / 4) (9 / 20) False = Inl FileNotFoundError
   \<and> detect (example_detector\<lparr>model := None\<rparr>) () None = Inl RuntimeError
   \<and> YOLODetector_init example_host ''models/best.PT'' (1 / 4) (9 / 20) False =
       Inr \<lparr>model_path = ''models/best.PT'', conf_threshold = 1 / 4, iou_threshold = 9 / 20, use_gpu = False,
            model = Some (YOLO (\<lambda>img c i. [])), class_names = [''start_button'', ''enemy''],
            model_type = ultralytics\<rparr>"
  using detector_construction_errors [of example_host "''notes.txt''" "1 / 4" "9 / 20" False
      "example_detector\<lparr>model := None\<rparr>" "()" None]
    detector_construction_errors [of example_host "''models/net.onnx''" "1 / 4" "9 / 20" False
      "example_detector\<lparr>model := None\<rparr>" "()" None]
    detector_construction_errors [of example_host "''models/best.PT''" "1 / 4" "9 / 20" False
      "example_detector\<lparr>model := None\<rparr>" "()" None]
  by (simp add: example_host_def lower_examples)


section \<open>Random taps\<close>

lemma randint_range:
  assumes "a \<le> b"
  shows "\<exists>n w'. randint a b w = Inr (n, w') \<and> a \<le> n \<and> n \<le> b \<and> trace w' = trace w"
proof -
  have "0 < nat (b - a + 1)" using assms by simp
  then have "rng w 0 mod nat (b - a + 1) < nat (b - a + 1)" by simp
  then have "int (rng w 0 mod nat (b - a + 1)) < b - a + 1" by linarith
  then show ?thesis using assms by (simp add: randint_def)
qed

lemma tap_trace:
  "\<exists>jx jy w'. tap p x y d w = w'
     \<and> trace w' = trace w @ Click (x + jx) (y + jy) # (if d < 0 then [Print] else [Sleep d])
     \<and> \<bar>jx\<bar> \<le> (case p of android \<Rightarrow> 2 | ios \<Rightarrow> 0)
     \<and> \<bar>jy\<bar> \<le> (case p of android \<Rightarrow> 2 | ios \<Rightarrow> 0)"
proof (cases p)
  case android
  obtain jx w1 where 1: "randint (- 2) 2 w = Inr (jx, w1)" "- 2 \<le> jx" "jx \<le> 2" "trace w1 = trace w"
    using randint_range [of "- 2" 2 w] by auto
  obtain jy w2 where 2: "randint (- 2) 2 w1 = Inr (jy, w2)" "- 2 \<le> jy" "jy \<le> 2" "trace w2 = trace w1"
    using randint_range [of "- 2" 2 w1] by auto
  have "tap p x y d w = emit (Click (x + jx) (y + jy) # (if d < 0 then [Print] else [Sleep d])) w2"
    using android 1 2 by (simp add: tap_def AndroidController_tap_def time_sleep_def emit_def)
  moreover have "\<bar>jx\<bar> \<le> 2" "\<bar>jy\<bar> \<le> 2" using 1 2 by auto
  ultimately show ?thesis using android 1 2 by (auto simp: emit_def)
next
  case ios
  have "tap p x y d w = emit (Click (x + 0) (y + 0) # (if d < 0 then [Print] else [Sleep d])) w"
    using ios by (simp add: tap_def IOSController_tap_def time_sleep_def emit_def)
  then show ?thesis using ios by (auto simp: emit_def intro!: exI [of _ 0])
qed

lemma tap_random_trace:
  assumes "0 \<le> r"
  shows "\<exists>ox oy jx jy w'. tap_random p x y r d w = Inr w'
     \<and> trace w' = trace w @ Click (x + ox + jx) (y + oy + jy) # (if d < 0 then [Print] else [Sleep d])
     \<and> \<bar>ox\<bar> \<le> r \<and> \<bar>oy\<bar> \<le> r
     \<and> \<bar>jx\<bar> \<le> (case p of android \<Rightarrow> 2 | ios \<Rightarrow> 0)
     \<and> \<bar>jy\<bar> \<le> (case p of android \<Rightarrow> 2 | ios \<Rightarrow> 0)"
proof -
  obtain ox w1 where 1: "randint (- r) r w = Inr (ox, w1)" "- r \<le> ox" "ox \<le> r" "trace w1 = trace w"
    using randint_range [of "- r" r w] assms by auto
  obtain oy w2 where 2: "randint (- r) r w1 = Inr (oy, w2)" "- r \<le> oy" "oy \<le> r" "trace w2 = trace w1"
    using randint_range [of "- r" r w1] assms by auto
  obtain jx jy where 3: "trace (tap p (x + ox) (y + oy) d w2) =
        trace w2 @ Click (x + ox + jx) (y + oy + jy) # (if d < 0 then [Print] else [Sleep d])"
      "\<bar>jx\<bar> \<le> (case p of android \<Rightarrow> 2 | ios \<Rightarrow> 0)" "\<bar>jy\<bar> \<le> (case p of android \<Rightarrow> 2 | ios \<Rightarrow> 0)"
    using tap_trace [of p "x + ox" "y + oy" d w2] by auto
  have "tap_random p x y r d w = Inr (tap p (x + ox) (y + oy) d w2)"
    using 1 2 by (simp add: tap_random_def)
  moreover have "\<bar>ox\<bar> \<le> r" "\<bar>oy\<bar> \<le> r" using 1 2 by auto
  ultimately show ?thesis using 1 2 3 by (intro exI [of _ ox] exI [of _ oy] exI [of _ jx] exI [of _ jy]) auto
qed

text \<open>
  C6, as stated, fails on Android: with radius 5 and the draws all at their largest, the
  tap decision at (30,30) reaches the driver as a click at (37,37), outside 30 \<plusminus> 5.
\<close>

theorem tap_random_android_outside_radius:
  "events_of (tap_random android 30 30 5 (1 / 20) (fresh_world high_draws)) =
     Inr [Click 37 37, Sleep (1 / 20)]
   \<and> make_decision SimpleStrategy_init () enemy_frame BATTLE =
       \<lparr>action = ''tap'', params = [(''x'', 30), (''y'', 30)]\<rparr>
   \<and> events_of (execute_action android (make_decision SimpleStrategy_init () enemy_frame BATTLE)
        (fresh_world high_draws)) = Inr [Click 37 37, Sleep (1 / 20), LogDebug]
   \<and> \<not> (30 - 5 \<le> (37 :: int) \<and> (37 :: int) \<le> 30 + 5)"
  by (simp add: events_of_def tap_random_def randint_def fresh_world_def high_draws_def tap_def
      AndroidController_tap_def time_sleep_def emit_def execute_action_def make_decision_def handle_battle_def
      get_detections_by_class_def enemy_frame_def mk_detection_def tap_at_def)

text \<open>
  C6, amended. For a radius \<open>r \<ge> 0\<close> and every outcome of the draws, \<open>tap_random\<close> calls
  the controller's \<open>tap\<close> at a point within \<open>r\<close> of the target on each axis; the
  controller's own \<open>tap\<close> clicks within \<open>tap_jitter\<close> of the point it is given (2 on
  Android, 0 on iOS), so the driver is clicked within \<open>r + tap_jitter\<close> of the target.
  The click is followed by the sleep, or by the printed failure of a negative sleep.
  End to end, a tap decision at (30,30) is dispatched with the default radius 5 and
  clicks within \<open>5 + tap_jitter\<close> of (30,30).
\<close>

theorem tap_random_within_radius_and_jitter:
  assumes "0 \<le> r"
  shows "(\<exists>ox oy w1 cx cy.
            tap_random p x y r d w = Inr (tap p (x + ox) (y + oy) d w1)
          \<and> \<bar>ox\<bar> \<le> r \<and> \<bar>oy\<bar> \<le> r
          \<and> trace (tap p (x + ox) (y + oy) d w1) =
              trace w @ Click cx cy # (if d < 0 then [Print] else [Sleep d])
          \<and> \<bar>cx - (x + ox)\<bar> \<le> tap_jitter p \<and> \<bar>cy - (y + oy)\<bar> \<le> tap_jitter p
          \<and> \<bar>cx - x\<bar> \<le> r + tap_jitter p \<and> \<bar>cy - y\<bar> \<le> r + tap_jitter p)
    \<and> (\<exists>cx cy w'.
            execute_action p \<lparr>action = ''tap'', params = [(''x'', 30), (''y'', 30)]\<rparr> w = Inr w'
          \<and> trace w' = trace w @ [Click cx cy, Sleep (1 / 20), LogDebug]
          \<and> \<bar>cx - 30\<bar> \<le> 5 + tap_jitter p \<and> \<bar>cy - 30\<bar> \<le> 5 + tap_jitter p)
    \<and> tap_jitter android = 2 \<and> tap_jitter ios = 0"
proof -
  have step: "\<exists>ox oy w1 cx cy.
            tap_random p x y r d w = Inr (tap p (x + ox) (y + oy) d w1)
          \<and> \<bar>ox\<bar> \<le> r \<and> \<bar>oy\<bar> \<le> r
          \<and> trace (tap p (x + ox) (y + oy) d w1) =
              trace w @ Click cx cy # (if d < 0 then [Print] else [Sleep d])
          \<and> \<bar>cx - (x + ox)\<bar> \<le> tap_jitter p \<and> \<bar>cy - (y + oy)\<bar> \<le> tap_jitter p
          \<and> \<bar>cx - x\<bar> \<le> r + tap_jitter p \<and> \<bar>cy - y\<bar> \<le> r + tap_jitter p"
    if r: "0 \<le> r" for x y r d w
  proof -
    obtain ox w0 where 1: "randint (- r) r w = Inr (ox, w0)" "- r \<le> ox" "ox \<le> r" "trace w0 = trace w"
      using randint_range [of "- r" r w] r by auto
    obtain oy w1 where 2: "randint (- r) r w0 = Inr (oy, w1)" "- r \<le> oy" "oy \<le> r" "trace w1 = trace w0"
      using randint_range [of "- r" r w0] r by auto
    obtain jx jy where 3:
      "trace (tap p (x + ox) (y + oy) d w1) =
         trace w1 @ Click (x + ox + jx) (y + oy + jy) # (if d < 0 then [Print] else [Sleep d])"
      "\<bar>jx\<bar> \<le> tap_jitter p" "\<bar>jy\<bar> \<le> tap_jitter p"
      using tap_trace [of p "x + ox" "y + oy" d w1] by (auto simp: tap_jitter_def)
    have "tap_random p x y r d w = Inr (tap p (x + ox) (y + oy) d w1)"
      using 1 2 by (simp add: tap_random_def)
    moreover have "\<bar>ox\<bar> \<le> r" "\<bar>oy\<bar> \<le> r" using 1 2 by auto
    moreover have "trace (tap p (x + ox) (y + oy) d w1) =
        trace w @ Click (x + ox + jx) (y + oy + jy) # (if d < 0 then [Print] else [Sleep d])"
      using 1 2 3 by simp
    moreover have "\<bar>(x + ox + jx) - (x + ox)\<bar> \<le> tap_jitter p" "\<bar>(y + oy + jy) - (y + oy)\<bar> \<le> tap_jitter p"
      using 3 by auto
    moreover have "\<bar>(x + ox + jx) - x\<bar> \<le> r + tap_jitter p" "\<bar>(y + oy + jy) - y\<bar> \<le> r + tap_jitter p"
      using 1 2 3 by auto
    ultimately show ?thesis by blast
  qed
  have e2e: "\<exists>cx cy w'.
            execute_action p \<lparr>action = ''tap'', params = [(''x'', 30), (''y'', 30)]\<rparr> w = Inr w'
          \<and> trace w' = trace w @ [Click cx cy, Sleep (1 / 20), LogDebug]
          \<and> \<bar>cx - 30\<bar> \<le> 5 + tap_jitter p \<and> \<bar>cy - 30\<bar> \<le> 5 + tap_jitter p"
  proof -
    obtain ox oy w1 cx cy where t:
      "tap_random p 30 30 5 (1 / 20) w = Inr (tap p (30 + ox) (30 + oy) (1 / 20) w1)"
      "trace (tap p (30 + ox) (30 + oy) (1 / 20) w1) = trace w @ [Click cx cy, Sleep (1 / 20)]"
      "\<bar>cx - 30\<bar> \<le> 5 + tap_jitter p" "\<bar>cy - 30\<bar> \<le> 5 + tap_jitter p"
      using step [of 5 30 30 "1 / 20" w] by auto
    have "execute_action p \<lparr>action = ''tap'', params = [(''x'', 30), (''y'', 30)]\<rparr> w =
        Inr (emit [LogDebug] (tap p (30 + ox) (30 + oy) (1 / 20) w1))"
      using t(1) by (simp add: execute_action_def)
    moreover have "trace (emit [LogDebug] (tap p (30 + ox) (30 + oy) (1 / 20) w1)) =
        trace w @ [Click cx cy, Sleep (1 / 20), LogDebug]"
      using t(2) by (simp add: emit_def)
    ultimately show ?thesis using t(3,4) by blast
  qed
  have "tap_jitter android = 2" "tap_jitter ios = 0" by (simp_all add: tap_jitter_def)
  with step [OF assms, of x y d w] e2e show ?thesis by blast
qed

theorem tap_random_within_radius_and_jitter_witness:
  "(0 :: int) \<le> 5
   \<and> (\<exists>cx cy w'.
          execute_action ios \<lparr>action = ''tap'', params = [(''x'', 30), (''y'', 30)]\<rparr>
            (fresh_world high_draws) = Inr w'
        \<and> trace w' = trace (fresh_world high_draws) @ [Click cx cy, Sleep (1 / 20), LogDebug]
        \<and> \<bar>cx - 30\<bar> \<le> 5 + tap_jitter ios \<and> \<bar>cy - 30\<bar> \<le> 5 + tap_jitter ios)
   \<and> events_of (tap_random ios 30 30 5 (1 / 20) (fresh_world high_draws)) =
       Inr [Click 35 35, Sleep (1 / 20)]"
proof -
  have r: "(0 :: int) \<le> 5" by simp
  have ev: "events_of (tap_random ios 30 30 5 (1 / 20) (fresh_world high_draws)) =
       Inr [Click 35 35, Sleep (1 / 20)]"
    by (simp add: events_of_def tap_random_def randint_def fresh_world_def high_draws_def tap_def
        IOSController_tap_def time_sleep_def emit_def)
  from tap_random_within_radius_and_jitter [OF r, of ios 30 30 "1 / 20" "fresh_world high_draws"]
    r ev show ?thesis by blast
qed

section \<open>What the policy asks of the orchestrator\<close>

lemma first_tap_or_wait:
  "(case xs of [] \<Rightarrow> wait | b # _ \<Rightarrow> tap_at (center b)) = wait
   \<or> (\<exists>c. (case xs of [] \<Rightarrow> wait | b # _ \<Rightarrow> tap_at (center b)) = tap_at c)"
proof (cases xs)
  case Nil
  then show ?thesis by simp
next
  case (Cons b bs)
  then have "(case xs of [] \<Rightarrow> wait | b # _ \<Rightarrow> tap_at (center b)) = tap_at (center b)"
    by simp
  then show ?thesis by blast
qed

lemma handle_battle_cases:
  "handle_battle detections = wait \<or> (\<exists>c. handle_battle detections = tap_at c)"
proof (cases "get_detections_by_class detections ''enemy''")
  case Nil
  then have "handle_battle detections =
      (case get_detections_by_class detections ''skill_button'' of
         [] \<Rightarrow> wait | b # _ \<Rightarrow> tap_at (center b))"
    by (simp add: handle_battle_def)
  then show ?thesis using first_tap_or_wait by metis
next
  case (Cons b bs)
  then have "handle_battle detections = tap_at (center b)"
    by (simp add: handle_battle_def)
  then show ?thesis by blast
qed

lemma make_decision_cases:
  "make_decision self frm detections state = wait
   \<or> (\<exists>c. make_decision self frm detections state = tap_at c)"
  unfolding make_decision_def handle_menu_def handle_reward_def
  using first_tap_or_wait handle_battle_cases by auto

text \<open>
  C10. For every frame, detection list and state, the action of \<open>make_decision\<close> is
  \<open>tap\<close> or \<open>wait\<close>, and a \<open>tap\<close> carries both \<open>x\<close> and \<open>y\<close>. So \<open>_execute_action\<close> on
  such a decision returns normally and the events it adds hold no unknown-action warning
  and no swipe.
\<close>

theorem make_decision_tap_or_wait:
  "action (make_decision self frm detections state) \<in> {''tap'', ''wait''}
   \<and> (action (make_decision self frm detections state) = ''tap'' \<longrightarrow>
        (\<exists>x y. map_of (params (make_decision self frm detections state)) ''x'' = Some x
             \<and> map_of (params (make_decision self frm detections state)) ''y'' = Some y))
   \<and> (\<exists>w' es. execute_action p (make_decision self frm detections state) w = Inr w'
         \<and> trace w' = trace w @ es \<and> (\<forall>a. LogWarning (UnknownAction a) \<notin> set es)
         \<and> (\<forall>x1 y1 x2 y2 d. DeviceSwipe x1 y1 x2 y2 d \<notin> set es))"
proof -
  let ?d = "make_decision self frm detections state"
  consider (w) "?d = wait" | (t) c where "?d = tap_at c"
    using make_decision_cases [of self frm detections state] by blast
  then show ?thesis
  proof cases
    case w
    have "execute_action p wait w = Inr w"
      by (simp add: execute_action_def wait_def)
    then have "\<exists>w' es. execute_action p ?d w = Inr w' \<and> trace w' = trace w @ es
        \<and> (\<forall>a. LogWarning (UnknownAction a) \<notin> set es)
        \<and> (\<forall>x1 y1 x2 y2 d. DeviceSwipe x1 y1 x2 y2 d \<notin> set es)"
      using w by (intro exI [of _ w] exI [of _ "[]"]) simp
    moreover have "action ?d = ''wait''" using w by (simp add: wait_def)
    ultimately show ?thesis by simp
  next
    case t
    obtain cx cy where c: "c = (cx, cy)" by (cases c)
    obtain w1 e where 1: "tap_random p cx cy 5 (1 / 20) w = Inr w1" "trace w1 = trace w @ e"
        "\<forall>a. LogWarning (UnknownAction a) \<notin> set e" "\<forall>x1 y1 x2 y2 d. DeviceSwipe x1 y1 x2 y2 d \<notin> set e"
      using tap_random_trace [of 5 p cx cy "1 / 20" w] by auto
    have "execute_action p (tap_at c) w = Inr (emit [LogDebug] w1)"
      using c 1 by (simp add: execute_action_def tap_at_def)
    moreover have "trace (emit [LogDebug] w1) = trace w @ (e @ [LogDebug])"
      using 1 by (simp add: emit_def)
    ultimately have "\<exists>w' es. execute_action p ?d w = Inr w' \<and> trace w' = trace w @ es
        \<and> (\<forall>a. LogWarning (UnknownAction a) \<notin> set es)
        \<and> (\<forall>x1 y1 x2 y2 d. DeviceSwipe x1 y1 x2 y2 d \<notin> set es)"
      using t 1 by (intro exI [of _ "emit [LogDebug] w1"] exI [of _ "e @ [LogDebug]"]) simp
    moreover have "action ?d = ''tap''" "map_of (params ?d) ''x'' = Some cx" "map_of (params ?d) ''y'' = Some cy"
      using t c by (simp_all add: tap_at_def)
    ultimately show ?thesis by simp
  qed
qed

theorem make_decision_tap_or_wait_witness:
  "action (make_decision SimpleStrategy_init () menu_frame MENU) = ''tap''
   \<and> map_of (params (make_decision SimpleStrategy_init () menu_frame MENU)) ''x'' = Some 200
   \<and> map_of (params (make_decision SimpleStrategy_init () menu_frame MENU)) ''y'' = Some 300
   \<and> action (make_decision SimpleStrategy_init () menu_frame MENU) \<in> {''tap'', ''wait''}"
  using make_decision_tap_or_wait [of SimpleStrategy_init "()" menu_frame MENU android quiet_world]
  by (simp add: make_decision_def handle_menu_def get_detections_by_class_def menu_frame_def
      mk_detection_def tap_at_def)

section \<open>A failed frame fetch\<close>

text \<open>
  C8. When the frame fetch of an iteration returns no frame, the iteration logs the
  warning, sleeps 0.5 seconds and reaches the next test of the loop with the bot exactly
  as it was (its frame counter, its policy and \<open>is_running\<close> included): no detector call
  and no driver call is among the events. The loop of a running bot goes on with the
  remaining iterations.
\<close>

theorem null_frame_skips_iteration:
  assumes "get_frame tk = None"
  shows "run_iteration tk self w =
      Inr (self, w\<lparr>trace := trace w @ [LogWarning FrameFetchFailed, Sleep (1 / 2)]\<rparr>)
    \<and> (is_running self \<longrightarrow>
         run_loop (tk # tks) self w =
         run_loop tks self (w\<lparr>trace := trace w @ [LogWarning FrameFetchFailed, Sleep (1 / 2)]\<rparr>))"
  using assms by (simp add: run_iteration_def emit_def)

theorem null_frame_skips_iteration_witness:
  "run_iteration null_tick example_bot quiet_world =
     Inr (example_bot, quiet_world\<lparr>trace := [LogWarning FrameFetchFailed, Sleep (1 / 2)]\<rparr>)
   \<and> run_loop [null_tick, null_tick] example_bot quiet_world =
      (None, example_bot,
       quiet_world\<lparr>trace := [LogWarning FrameFetchFailed, Sleep (1 / 2),
                              LogWarning FrameFetchFailed, Sleep (1 / 2)]\<rparr>)"
proof -
  have n: "get_frame null_tick = None" by (simp add: null_tick_def)
  have r: "is_running example_bot" by (simp add: example_bot_def)
  from null_frame_skips_iteration [OF n, of example_bot quiet_world "[null_tick]"]
    null_frame_skips_iteration [OF n, of example_bot
      "quiet_world\<lparr>trace := trace quiet_world @ [LogWarning FrameFetchFailed, Sleep (1 / 2)]\<rparr>" "[]"]
    r show ?thesis by (simp add: quiet_world_def)
qed

section \<open>The smooth swipe\<close>

lemma py_int_mono: "x \<le> y \<Longrightarrow> py_int x \<le> py_int y"
proof -
  assume le: "x \<le> y"
  consider (pos) "0 \<le> x" | (mixed) "x < 0" "0 \<le> y" | (neg) "y < 0"
    by linarith
  then show ?thesis
  proof cases
    case pos
    with le show ?thesis by (simp add: py_int_def floor_mono)
  next
    case mixed
    then have "\<lceil>x\<rceil> \<le> 0" "0 \<le> \<lfloor>y\<rfloor>"
      by (simp_all add: ceiling_le_zero)
    moreover have "py_int x = \<lceil>x\<rceil>" "py_int y = \<lfloor>y\<rfloor>"
      using mixed by (simp_all add: py_int_def)
    ultimately show ?thesis by linarith
  next
    case neg
    with le show ?thesis by (simp add: py_int_def ceiling_mono)
  qed
qed

lemma mult_close:
  fixes a b a' b' :: real
  assumes "\<bar>a' - a\<bar> \<le> da" "\<bar>b' - b\<bar> \<le> db" "\<bar>a\<bar> \<le> A" "\<bar>b'\<bar> \<le> B"
  shows "\<bar>a' * b' - a * b\<bar> \<le> da * B + A * db"
proof -
  have "a' * b' - a * b = (a' - a) * b' + a * (b' - b)"
    by (simp add: algebra_simps)
  then have "\<bar>a' * b' - a * b\<bar> \<le> \<bar>(a' - a) * b'\<bar> + \<bar>a * (b' - b)\<bar>"
    by (simp add: abs_triangle_ineq)
  also have "\<dots> = \<bar>a' - a\<bar> * \<bar>b'\<bar> + \<bar>a\<bar> * \<bar>b' - b\<bar>"
    by (simp add: abs_mult)
  also have "\<dots> \<le> da * B + A * db"
    using assms by (intro add_mono mult_mono) auto
  finally show ?thesis .
qed

lemma bezier_x_close:
  assumes R: "rounds_within e fl pw" and e0: "0 \<le> e" and e1: "e \<le> 1 / 2 ^ 20"
    and t: "0 \<le> t" "t \<le> 1" and c: "0 \<le> c" "c \<le> 100"
    and t': "\<bar>t' - t\<bar> \<le> e" and c': "\<bar>c' - c\<bar> \<le> 2 * e"
  shows "\<bar>bezier fl pw t' 0 c' 100 - (2 * (1 - t) * t * c + 100 * (t * t))\<bar> \<le> 1722 * e"
proof -
  have fl: "\<bar>fl x - x\<bar> \<le> e" if "\<bar>x\<bar> \<le> 1024" for x
    using R that by (simp add: rounds_within_def)
  have pw: "\<bar>pw x - x * x\<bar> \<le> e" if "\<bar>x\<bar> \<le> 2" for x
    using R that by (simp add: rounds_within_def)
  have e2: "e \<le> 1 / 1000" using e1 by simp
  define s where "s = 1 - t"
  have s: "0 \<le> s" "s \<le> 1" using t by (simp_all add: s_def)
  have st: "0 \<le> s * t" "s * t \<le> 1"
    using s t by (simp_all add: mult_le_one)
  have stc: "0 \<le> s * t * c" "s * t * c \<le> 100"
    using st c mult_mono [of "s * t" 1 c 100] by simp_all
  have tt: "0 \<le> t * t" "t * t \<le> 1"
    using t by (simp_all add: mult_le_one)
  \<comment> \<open>\<open>1 - t\<close>\<close>
  define s' where "s' = fl (1 - t')"
  have "\<bar>fl (1 - t') - (1 - t')\<bar> \<le> e"
    using t t' e2 by (intro fl) linarith
  then have s': "\<bar>s' - s\<bar> \<le> 2 * e"
    using t' unfolding s'_def s_def by linarith
  \<comment> \<open>\<open>(1 - t) ** 2 * start_x\<close> with \<open>start_x = 0\<close>\<close>
  define A where "A = fl (pw s' * real_of_int 0)"
  have A: "\<bar>A\<bar> \<le> e"
    using fl [of 0] by (simp add: A_def)
  \<comment> \<open>\<open>2 * (1 - t) * t * control_x\<close>\<close>
  define d where "d = fl (2 * s')"
  have "\<bar>fl (2 * s') - 2 * s'\<bar> \<le> e"
    using s s' e2 by (intro fl) linarith
  then have d: "\<bar>d - 2 * s\<bar> \<le> 5 * e"
    using s' unfolding d_def by linarith
  define m where "m = fl (d * t')"
  have dt: "\<bar>d * t' - 2 * s * t\<bar> \<le> 5 * e * 2 + 2 * e"
    using s t t' e2 by (intro mult_close d) linarith+
  have "\<bar>fl (d * t') - d * t'\<bar> \<le> e"
    using dt st e2 by (intro fl) linarith
  then have m: "\<bar>m - 2 * s * t\<bar> \<le> 13 * e"
    using dt unfolding m_def by linarith
  define B where "B = fl (m * c')"
  have mc: "\<bar>m * c' - 2 * s * t * c\<bar> \<le> 13 * e * 101 + 2 * (2 * e)"
    using st c c' e2 by (intro mult_close m) linarith+
  have "\<bar>fl (m * c') - m * c'\<bar> \<le> e"
    using mc stc e2 by (intro fl) linarith
  then have B: "\<bar>B - 2 * s * t * c\<bar> \<le> 1318 * e"
    using mc unfolding B_def by linarith
  \<comment> \<open>\<open>t ** 2 * end_x\<close> with \<open>end_x = 100\<close>\<close>
  define p where "p = pw t'"
  have "\<bar>pw t' - t' * t'\<bar> \<le> e"
    using t t' e2 by (intro pw) linarith
  moreover have "\<bar>t' * t' - t * t\<bar> \<le> e * 2 + 1 * e"
    using t t' e2 by (intro mult_close) linarith+
  ultimately have p: "\<bar>p - t * t\<bar> \<le> 4 * e"
    unfolding p_def by linarith
  define C where "C = fl (p * 100)"
  have "\<bar>fl (p * 100) - p * 100\<bar> \<le> e"
    using p tt e2 by (intro fl) linarith
  then have C: "\<bar>C - 100 * (t * t)\<bar> \<le> 401 * e"
    using p unfolding C_def by linarith
  \<comment> \<open>the two sums\<close>
  define S where "S = fl (A + B)"
  have "\<bar>fl (A + B) - (A + B)\<bar> \<le> e"
    using A B stc e2 by (intro fl) linarith
  then have S: "\<bar>S - 2 * s * t * c\<bar> \<le> 1320 * e"
    using A B unfolding S_def by linarith
  have "\<bar>fl (S + C) - (S + C)\<bar> \<le> e"
    using S C stc tt e2 by (intro fl) linarith
  then have "\<bar>fl (S + C) - (2 * s * t * c + 100 * (t * t))\<bar> \<le> 1722 * e"
    using S C by linarith
  moreover have "bezier fl pw t' 0 c' 100 = fl (S + C)"
    by (simp add: bezier_def S_def C_def A_def B_def m_def d_def s'_def p_def)
  ultimately show ?thesis by (simp add: s_def)
qed

lemma exact_x_gap:
  assumes n: "n < 20" and c: "0 \<le> c" "c \<le> 100"
  shows "exact_x c n + 1 / 4 \<le> exact_x c (Suc n)"
proof -
  define P where "P = c * (19 - 2 * real n)"
  have id: "exact_x c (Suc n) - exact_x c n = (2 * P + 100 * (2 * real n + 1)) / 400"
    by (simp add: exact_x_def P_def field_simps)
  have "100 \<le> 2 * P + 100 * (2 * real n + 1)"
  proof (cases "n \<le> 9")
    case True
    then have "0 \<le> 19 - 2 * real n" by simp
    with c have "0 \<le> P" by (simp add: P_def)
    then show ?thesis by simp
  next
    case False
    then have "0 \<le> 2 * real n - 19" by simp
    with c have "0 \<le> (100 - c) * (2 * real n - 19)" by simp
    also have "(100 - c) * (2 * real n - 19) = P - 100 * (19 - 2 * real n)"
      by (simp add: P_def algebra_simps)
    finally have "100 * (19 - 2 * real n) \<le> P" by simp
    moreover have "real n \<le> 19" using n by simp
    ultimately show ?thesis by argo
  qed
  with id show ?thesis by simp
qed

lemma control_close:
  assumes R: "rounds_within e fl pw" and e: "0 \<le> e" "e \<le> 1 / 2 ^ 20"
    and r: "- 50 \<le> r" "r \<le> 50"
  shows "\<bar>control_point fl 0 100 r - (50 + real_of_int r)\<bar> \<le> 2 * e"
proof -
  have fl: "\<bar>fl x - x\<bar> \<le> e" if "\<bar>x\<bar> \<le> 1024" for x
    using R that by (simp add: rounds_within_def)
  have e2: "e \<le> 1 / 1000" using e by simp
  have r': "- 50 \<le> real_of_int r" "real_of_int r \<le> 50" using r by simp_all
  have h: "\<bar>fl 50 - 50\<bar> \<le> e" by (intro fl) simp
  have "\<bar>fl (fl 50 + real_of_int r) - (fl 50 + real_of_int r)\<bar> \<le> e"
    using h r' e2 by (intro fl) linarith
  with h have "\<bar>fl (fl 50 + real_of_int r) - (50 + real_of_int r)\<bar> \<le> 2 * e" by linarith
  then show ?thesis by (simp add: control_point_def)
qed

lemma py_int_close: "\<bar>real_of_int (py_int y) - y\<bar> < 1"
  unfolding py_int_def by (auto simp: abs_less_iff) linarith+

lemma bezier_path_close:
  assumes R: "rounds_within (1 / 2 ^ 20) fl pw" and r: "- 50 \<le> r" "r \<le> 50" and k: "k \<le> 20"
  shows "\<bar>bezier fl pw (fl (real k / 20)) 0 (control_point fl 0 100 r) 100
      - exact_x (50 + real_of_int r) k\<bar> \<le> 1 / 16"
proof -
  define e :: real where "e = 1 / 2 ^ 20"
  have e: "0 \<le> e" "e \<le> 1 / 2 ^ 20" by (simp_all add: e_def)
  have R': "rounds_within e fl pw" using R by (simp add: e_def)
  have fl: "\<bar>fl x - x\<bar> \<le> e" if "\<bar>x\<bar> \<le> 1024" for x
    using R' that by (simp add: rounds_within_def)
  define c where "c = 50 + real_of_int r"
  have c: "0 \<le> c" "c \<le> 100" using r by (simp_all add: c_def)
  have c': "\<bar>control_point fl 0 100 r - c\<bar> \<le> 2 * e"
    unfolding c_def by (rule control_close [OF R' e r])
  have t: "0 \<le> real k / 20" "real k / 20 \<le> 1" using k by simp_all
  have "\<bar>fl (real k / 20) - real k / 20\<bar> \<le> e"
    using t by (intro fl) linarith
  from bezier_x_close [OF R' e t c this c']
  have "\<bar>bezier fl pw (fl (real k / 20)) 0 (control_point fl 0 100 r) 100 - exact_x c k\<bar> \<le> 1722 * e"
    by (simp add: exact_x_def)
  moreover have "1722 * e \<le> 1 / 16" by (simp add: e_def)
  ultimately show ?thesis unfolding c_def by linarith
qed

lemma path_x_step:
  assumes R: "rounds_within (1 / 2 ^ 20) fl pw" and r: "- 50 \<le> r" "r \<le> 50" and n: "n < 20"
  shows "fst (path_point fl pw 0 0 100 0 (control_point fl 0 100 r) cy 20 n)
       \<le> fst (path_point fl pw 0 0 100 0 (control_point fl 0 100 r) cy 20 (Suc n))"
proof -
  have c: "0 \<le> 50 + real_of_int r" "50 + real_of_int r \<le> 100" using r by simp_all
  from n have "n \<le> 20" "Suc n \<le> 20" by simp_all
  note bezier_path_close [OF R r this(1)] bezier_path_close [OF R r this(2)] exact_x_gap [OF n c]
  then have "bezier fl pw (fl (real n / 20)) 0 (control_point fl 0 100 r) 100
      \<le> bezier fl pw (fl (real (Suc n) / 20)) 0 (control_point fl 0 100 r) 100"
    by linarith
  then show ?thesis
    by (simp add: path_point_def Let_def py_int_mono)
qed

lemma path_x_close:
  assumes R: "rounds_within (1 / 2 ^ 20) fl pw" and r: "- 50 \<le> r" "r \<le> 50" and k: "k \<le> 20"
  shows "\<bar>real_of_int (fst (path_point fl pw 0 0 100 0 (control_point fl 0 100 r) cy 20 k))
      - exact_x (50 + real_of_int r) k\<bar> < 17 / 16"
proof -
  define y where "y = bezier fl pw (fl (real k / 20)) 0 (control_point fl 0 100 r) 100"
  have "fst (path_point fl pw 0 0 100 0 (control_point fl 0 100 r) cy 20 k) = py_int y"
    by (simp add: path_point_def Let_def y_def)
  moreover have "\<bar>y - exact_x (50 + real_of_int r) k\<bar> \<le> 1 / 16"
    unfolding y_def by (rule bezier_path_close [OF R r k])
  moreover note py_int_close [of y]
  ultimately show ?thesis by linarith
qed

lemma path_x_first:
  assumes R: "rounds_within (1 / 2 ^ 20) fl pw" and r: "- 50 \<le> r" "r \<le> 50"
  shows "fst (path_point fl pw 0 0 100 0 (control_point fl 0 100 r) cy 20 0) = 0"
proof -
  define y where "y = bezier fl pw (fl (real 0 / 20)) 0 (control_point fl 0 100 r) 100"
  have "\<bar>y - exact_x (50 + real_of_int r) 0\<bar> \<le> 1 / 16"
    unfolding y_def by (rule bezier_path_close [OF R r]) simp
  then have "\<bar>y\<bar> < 1" by (simp add: exact_x_def)
  then have "py_int y = 0" by (auto simp: py_int_def abs_less_iff floor_eq_iff ceiling_eq_iff)
  then show ?thesis by (simp add: path_point_def Let_def y_def)
qed

lemma path_x_last:
  assumes E: "exact_on_integers fl pw"
  shows "fst (path_point fl pw 0 0 100 0 c cy 20 20) = 100"
proof -
  have i: "fl (real_of_int n) = real_of_int n" if "\<bar>n\<bar> \<le> 1024" for n
    using E that by (simp add: exact_on_integers_def)
  have fl: "fl 0 = 0" "fl 1 = 1" "fl 100 = 100"
    using i [of 0] i [of 1] i [of 100] by simp_all
  have pw: "pw 1 = 1" using E by (simp add: exact_on_integers_def)
  show ?thesis
    by (simp add: path_point_def Let_def bezier_def fl pw py_int_def)
qed

text \<open>
  C7, amended. For the smooth swipe from (0,0) to (100,0) with 20 steps and every outcome
  of the random draws, the path has 21 points whose x coordinates are non-decreasing; they
  start at 0 and, the arithmetic being exact on integers, end at 100. The first draw
  \<open>rx\<close> moves the control point along the x axis, and every x coordinate is within 17/16
  of the exact curve \<open>2 (1 - t) t (50 + rx) + 100 t^2\<close> at \<open>t = i / 20\<close>: the curvature is
  not confined to the perpendicular axis. This holds under every rounding of the float
  operations within \<open>2 ^ -20\<close> of the exact results, which double arithmetic is.
\<close>

theorem smooth_swipe_x_path:
  assumes "rounds_within (1 / 2 ^ 20) fl pw"
  shows "\<exists>rx w1 points w'.
       randint (- 50) 50 w = Inr (rx, w1) \<and> - 50 \<le> rx \<and> rx \<le> 50
     \<and> swipe_smooth_path fl pw 0 0 100 0 20 w = Inr (points, w')
     \<and> length points = 21 \<and> sorted (map fst points)
     \<and> fst (points ! 0) = 0
     \<and> (exact_on_integers fl pw \<longrightarrow> fst (points ! 20) = 100)
     \<and> (\<forall>i \<le> 20. \<bar>real_of_int (fst (points ! i)) - exact_x (50 + real_of_int rx) i\<bar> < 17 / 16)"
proof -
  obtain rx w1 where 1: "randint (- 50) 50 w = Inr (rx, w1)" "- 50 \<le> rx" "rx \<le> 50"
    using randint_range [of "- 50" 50 w] by auto
  obtain ry w2 where 2: "randint (- 50) 50 w1 = Inr (ry, w2)"
    using randint_range [of "- 50" 50 w1] by auto
  define cx where "cx = control_point fl 0 100 rx"
  define cy where "cy = control_point fl 0 0 ry"
  define points where "points = map (path_point fl pw 0 0 100 0 cx cy 20) [0..<21]"
  have path: "swipe_smooth_path fl pw 0 0 100 0 20 w = Inr (points, w2)"
    using 1 2 by (simp add: swipe_smooth_path_def points_def cx_def cy_def)
  have len: "length points = 21" by (simp add: points_def)
  have nth: "points ! i = path_point fl pw 0 0 100 0 cx cy 20 i" if "i \<le> 20" for i
    using that by (simp add: points_def del: upt_Suc)
  have "map fst points ! i \<le> map fst points ! Suc i" if "Suc i < length (map fst points)" for i
  proof -
    from that len have i: "i < 20" by simp
    then have "map fst points ! i = fst (path_point fl pw 0 0 100 0 cx cy 20 i)"
      "map fst points ! Suc i = fst (path_point fl pw 0 0 100 0 cx cy 20 (Suc i))"
      using len nth [of i] nth [of "Suc i"] by simp_all
    with path_x_step [OF assms 1(2,3) i] show ?thesis by (simp add: cx_def)
  qed
  then have sorted: "sorted (map fst points)" by (simp only: sorted_iff_nth_Suc) blast
  have first: "fst (points ! 0) = 0"
    using path_x_first [OF assms 1(2,3)] nth [of 0] by (simp add: cx_def)
  have last: "fst (points ! 20) = 100" if "exact_on_integers fl pw"
    using path_x_last [OF that] nth [of 20] by simp
  have close: "\<forall>i \<le> 20. \<bar>real_of_int (fst (points ! i)) - exact_x (50 + real_of_int rx) i\<bar> < 17 / 16"
    using path_x_close [OF assms 1(2,3)] nth by (simp add: cx_def)
  from 1 path len sorted first last close show ?thesis by blast
qed

lemma double_rounds: "rounds_within (1 / 2 ^ 20) round_double double_square"
proof -
  have a: "\<bar>round_double x - x\<bar> \<le> 1 / 2 ^ 20" if "\<bar>x\<bar> \<le> 1024" for x
  proof -
    have "\<bar>round_double x - x\<bar> \<le> 1 / 2 ^ 43" using that by (rule round_double_small_error)
    also have "(1::real) / 2 ^ 43 \<le> 1 / 2 ^ 20" by simp
    finally show ?thesis .
  qed
  have "\<bar>double_square x - x * x\<bar> \<le> 1 / 2 ^ 20" if "\<bar>x\<bar> \<le> 2" for x
  proof -
    have "\<bar>x * x\<bar> \<le> 2 * 2" unfolding abs_mult using that by (intro mult_mono) simp_all
    then show ?thesis unfolding double_square_def by (intro a) simp
  qed
  with a show ?thesis by (simp add: rounds_within_def)
qed

lemma double_exact: "exact_on_integers round_double double_square"
  using round_double_of_int [of 1]
  by (simp add: exact_on_integers_def double_square_def round_double_of_int)

theorem smooth_swipe_x_path_witness:
  "rounds_within (1 / 2 ^ 20) round_double double_square
   \<and> exact_on_integers round_double double_square
   \<and> (\<exists>rx w1 points w'.
       randint (- 50) 50 quiet_world = Inr (rx, w1) \<and> - 50 \<le> rx \<and> rx \<le> 50
     \<and> swipe_smooth_path round_double double_square 0 0 100 0 20 quiet_world = Inr (points, w')
     \<and> length points = 21 \<and> sorted (map fst points)
     \<and> fst (points ! 0) = 0 \<and> fst (points ! 20) = 100)"
  using smooth_swipe_x_path [OF double_rounds, of quiet_world] double_rounds double_exact
  by blast

lemma second_x_low:
  assumes R: "rounds_within (1 / 2 ^ 20) fl pw"
  shows "fst (path_point fl pw 0 0 100 0 (control_point fl 0 100 (- 50)) cy 20 1) = 0"
proof -
  define y where "y = bezier fl pw (fl (real 1 / 20)) 0 (control_point fl 0 100 (- 50)) 100"
  have "\<bar>y - exact_x (50 + real_of_int (- 50)) 1\<bar> \<le> 1 / 16"
    unfolding y_def by (rule bezier_path_close [OF R]) simp_all
  moreover have "exact_x (50 + real_of_int (- 50)) 1 = 1 / 4"
    by (simp add: exact_x_def)
  ultimately have "3 / 16 \<le> y" "y \<le> 5 / 16" by linarith+
  then have "py_int y = 0" by (simp add: py_int_def floor_eq_iff)
  then show ?thesis by (simp add: path_point_def Let_def y_def)
qed

lemma second_x_high:
  assumes R: "rounds_within (1 / 2 ^ 20) fl pw"
  shows "fst (path_point fl pw 0 0 100 0 (control_point fl 0 100 50) cy 20 1) = 9"
proof -
  define y where "y = bezier fl pw (fl (real 1 / 20)) 0 (control_point fl 0 100 50) 100"
  have "\<bar>y - exact_x (50 + real_of_int 50) 1\<bar> \<le> 1 / 16"
    unfolding y_def by (rule bezier_path_close [OF R]) simp_all
  moreover have "exact_x (50 + real_of_int 50) 1 = 39 / 4"
    by (simp add: exact_x_def)
  ultimately have "9 + 11 / 16 \<le> y" "y \<le> 9 + 13 / 16" by linarith+
  then have "py_int y = 9" by (simp add: py_int_def floor_eq_iff)
  then show ?thesis by (simp add: path_point_def Let_def y_def)
qed

text \<open>
  C7, as stated, fails in its last part: the random offset is not confined to the
  perpendicular axis. In double arithmetic the second point of the path has the x
  coordinate 0 when the first draw is the lowest and 9 when it is the highest.
\<close>

theorem smooth_swipe_x_depends_on_draw:
  "xs_of (swipe_smooth_path round_double double_square 0 0 100 0 20 quiet_world) ! 1 = 0
   \<and> xs_of (swipe_smooth_path round_double double_square 0 0 100 0 20 (fresh_world highest_draws)) ! 1 = 9"
proof -
  have low: "xs_of (swipe_smooth_path round_double double_square 0 0 100 0 20 quiet_world) =
      map (\<lambda>i. fst (path_point round_double double_square 0 0 100 0
             (control_point round_double 0 100 (- 50)) (control_point round_double 0 0 (- 50)) 20 i))
        [0..<21]"
    by (simp add: xs_of_def swipe_smooth_path_def randint_def quiet_world_def comp_def del: upt_Suc)
  have high: "xs_of (swipe_smooth_path round_double double_square 0 0 100 0 20 (fresh_world highest_draws)) =
      map (\<lambda>i. fst (path_point round_double double_square 0 0 100 0
             (control_point round_double 0 100 50) (control_point round_double 0 0 50) 20 i))
        [0..<21]"
    by (simp add: xs_of_def swipe_smooth_path_def randint_def fresh_world_def highest_draws_def comp_def
        del: upt_Suc)
  show ?thesis
    unfolding low high
    using second_x_low [OF double_rounds] second_x_high [OF double_rounds]
    by (simp del: upt_Suc)
qed

end
